theory Spec2Isabelle
  imports Complex_Main "HOL-Library.Extended_Nat" "HOL-Library.Multiset"
begin

section \<open>Data model (types.ts)\<close>

text \<open>
  JavaScript numbers are modelled as real numbers: the arithmetic of the brush engine is
  read as exact arithmetic.  The places where the source can leave the finite numbers (a
  division by zero) are written out as separate cases of the model, and the velocity is
  modelled a second time over the doubles, with \<open>Infinity\<close> and \<open>NaN\<close>, further down.
  Record fields that would clash with a constant of the library or with the usual variable
  names carry a suffix: \<open>x\<close>, \<open>y\<close> of a point are \<open>x_p\<close>, \<open>y_p\<close>; \<open>size\<close> of the settings is
  \<open>size_s\<close>.
\<close>

record Point =
  x_p :: real
  y_p :: real
  pressure :: real
  time :: real

datatype FontStyle = HAND | PEN | BRUSH

datatype WeightOption = THIN | NORMAL | BOLD

datatype AppMode = DRAW | GENERATE

record BrushSettings =
  size_s :: real
  roughness :: real
  taper :: real
  color :: string
  roundness :: real
  angle :: real
  hardness :: real
  spacing :: real
  letterSpacing :: real
  lineHeight :: real
  slant :: real
  fontSize :: real
  fontStyle :: FontStyle
  weightOption :: WeightOption
  isEraser :: bool

section \<open>Brush physics (utils/brushPhysics.ts)\<close>

text \<open>\<open>Math.pow(d, 2)\<close> is the square; \<open>Math.sqrt\<close> is the real square root.\<close>

definition getDistance :: "Point \<Rightarrow> Point \<Rightarrow> real" where
  "getDistance p1 p2 = sqrt ((x_p p2 - x_p p1) ^ 2 + (y_p p2 - y_p p1) ^ 2)"

text \<open>
  \<open>Math.atan2(dy, dx)\<close>: the argument of the complex number \<open>dx + i dy\<close>, in \<open>(-pi, pi]\<close>,
  and \<open>0\<close> at the origin.
\<close>

definition atan2 :: "real \<Rightarrow> real \<Rightarrow> real" where
  "atan2 dy dx = Arg (Complex dx dy)"

definition getAngle :: "Point \<Rightarrow> Point \<Rightarrow> real" where
  "getAngle p1 p2 = atan2 (y_p p2 - y_p p1) (x_p p2 - x_p p1)"

record Physics =
  ph_dist :: real
  ph_angle :: real
  ph_size :: real
  ph_opacity :: real
  ph_velocity :: real

text \<open>
  The velocity of a segment: \<open>timeDiff > 0 ? dist / timeDiff : 0\<close>.
\<close>

definition segmentVelocity :: "Point \<Rightarrow> Point \<Rightarrow> real" where
  "segmentVelocity lastPoint currentPoint =
     (let dist = getDistance lastPoint currentPoint;
          timeDiff = time currentPoint - time lastPoint
      in if timeDiff > 0 then dist / timeDiff else 0)"

text \<open>
  The effective pressure \<open>pressureInput\<close>: the reported pressure when it lies in \<open>[0, 1]\<close>,
  otherwise a pressure simulated from the velocity with \<open>maxVelocity = 2.5\<close>.
\<close>

definition pressureInput :: "Point \<Rightarrow> Point \<Rightarrow> real" where
  "pressureInput lastPoint currentPoint =
     (if pressure currentPoint \<ge> 0 \<and> pressure currentPoint \<le> 1 then pressure currentPoint
      else (let maxVelocity = 2.5;
                velocityRatio = min 1 (segmentVelocity lastPoint currentPoint / maxVelocity)
            in 1 - velocityRatio))"

definition calculateBrushPhysics :: "Point \<Rightarrow> Point \<Rightarrow> BrushSettings \<Rightarrow> Physics" where
  "calculateBrushPhysics lastPoint currentPoint settings =
     (let dist = getDistance lastPoint currentPoint;
          velocity = segmentVelocity lastPoint currentPoint;
          maxSize = size_s settings * 1.5;
          targetSize = maxSize * (1 - (1 - pressureInput lastPoint currentPoint) * taper settings)
      in \<lparr> ph_dist = dist,
           ph_angle = getAngle lastPoint currentPoint,
           ph_size = targetSize,
           ph_opacity = 1.0,
           ph_velocity = velocity \<rparr>)"

section \<open>Canvas surfaces\<close>

text \<open>
  The pixels of a canvas are not modelled one by one.  A raster is the list of the fill
  operations applied to a blank (fully transparent) surface, each with the drawing state
  under which it was painted; the pixels are a function of that list, and the blank
  surface is the empty list.  \<open>getImageData\<close> over the whole canvas reads the list and
  \<open>clearRect\<close> followed by \<open>putImageData\<close> of a full snapshot replaces it.
\<close>

datatype CompositeOp = SourceOver | DestinationOut

record PaintOp =
  op_x :: real
  op_y :: real
  op_rx :: real
  op_ry :: real
  op_rotation :: real
  op_fill :: string
  op_alpha :: real
  op_composite :: CompositeOp
  op_blur :: real
  op_blurColor :: string

type_synonym ImageData = "PaintOp list"

record Context2D =
  globalCompositeOperation :: CompositeOp
  shadowBlur :: real
  shadowColor :: string
  globalAlpha :: real
  fillStyle :: string
  pixels :: ImageData

text \<open>A fresh context, as the canvas has it after its width or height was assigned.\<close>

definition freshContext :: Context2D where
  "freshContext = \<lparr> globalCompositeOperation = SourceOver, shadowBlur = 0,
                     shadowColor = ''rgba(0, 0, 0, 0)'', globalAlpha = 1,
                     fillStyle = ''#000000'', pixels = [] \<rparr>"

text \<open>
  The setters of the canvas ignore values outside their range: \<open>globalAlpha\<close> outside
  \<open>[0, 1]\<close> and a negative \<open>shadowBlur\<close> leave the attribute as it was.
\<close>

definition setGlobalAlpha :: "real \<Rightarrow> Context2D \<Rightarrow> Context2D" where
  "setGlobalAlpha v c = (if 0 \<le> v \<and> v \<le> 1 then c\<lparr>globalAlpha := v\<rparr> else c)"

definition setShadowBlur :: "real \<Rightarrow> Context2D \<Rightarrow> Context2D" where
  "setShadowBlur v c = (if 0 \<le> v then c\<lparr>shadowBlur := v\<rparr> else c)"

text \<open>\<open>beginPath(); ellipse(x, y, rx, ry, rotation, 0, 2 pi); fill()\<close> on a context.\<close>

definition fillEllipse :: "real \<Rightarrow> real \<Rightarrow> real \<Rightarrow> real \<Rightarrow> real \<Rightarrow> Context2D \<Rightarrow> Context2D" where
  "fillEllipse x y rx ry rotation c =
     c\<lparr>pixels := pixels c @
        [\<lparr> op_x = x, op_y = y, op_rx = rx, op_ry = ry, op_rotation = rotation,
            op_fill = fillStyle c, op_alpha = globalAlpha c,
            op_composite = globalCompositeOperation c,
            op_blur = shadowBlur c, op_blurColor = shadowColor c \<rparr>]\<rparr>"

text \<open>
  An entry of a vector log.  The source builds the text of an \<open><ellipse>\<close> element from the
  values below with \<open>toFixed\<close>; the model keeps the values (the rotation in degrees).
\<close>

record SvgEllipse =
  svg_cx :: real
  svg_cy :: real
  svg_rx :: real
  svg_ry :: real
  svg_rotDeg :: real
  svg_fill :: string
  svg_opacity :: real

text \<open>
  A layer as the stamping code sees it: the 2D context, the vector log (\<open>svgRef.current\<close>),
  and the number of calls of \<open>Math.random()\<close> made so far.  The values \<open>Math.random()\<close>
  returns are a parameter \<open>rnd\<close> of the model: the \<open>k\<close>-th call returns \<open>rnd k\<close>.
\<close>

record Layer =
  ctx :: Context2D
  svgRef :: "SvgEllipse list"
  randomCalls :: nat

text \<open>
  A call either returns, or throws: \<open>ellipse\<close> throws an \<open>IndexSizeError\<close> when a radius is
  negative, and nothing in the source catches it.  Both carry the state reached.
\<close>

datatype 'a outcome = Returns 'a | Throws 'a

definition andThen :: "'a outcome \<Rightarrow> ('a \<Rightarrow> 'a outcome) \<Rightarrow> 'a outcome" where
  "andThen r f = (case r of Returns a \<Rightarrow> f a | Throws a \<Rightarrow> Throws a)"

text \<open>
  \<open>drawAndRecordEllipse\<close>.  The guard of the source, \<open>Number.isFinite\<close> of the centre and
  the radii, always passes on real numbers.
\<close>

definition drawAndRecordEllipse ::
  "Layer \<Rightarrow> real \<Rightarrow> real \<Rightarrow> real \<Rightarrow> real \<Rightarrow> real \<Rightarrow> string \<Rightarrow> real \<Rightarrow> bool \<Rightarrow> Layer outcome" where
  "drawAndRecordEllipse l x y rx ry rotation col opacity eraser =
     (let c1 = (setGlobalAlpha opacity (ctx l))\<lparr>fillStyle := col\<rparr> in
      if rx < 0 \<or> ry < 0 then Throws (l\<lparr>ctx := c1\<rparr>)
      else
        (let c2 = fillEllipse x y rx ry rotation c1 in
         if \<not> eraser then
           Returns (l\<lparr>ctx := c2,
                      svgRef := svgRef l @
                        [\<lparr> svg_cx = x, svg_cy = y, svg_rx = rx, svg_ry = ry,
                            svg_rotDeg = (rotation * 180) / pi,
                            svg_fill = col, svg_opacity = opacity \<rparr>]\<rparr>)
         else Returns (l\<lparr>ctx := c2\<rparr>)))"

section \<open>The stroke engine (drawStroke)\<close>

text \<open>
  One of the three splatter stamps of a step.  It draws three random numbers, in the order
  of the source: the angle offset, the distance offset, and the factor of the opacity.
\<close>

definition splatterStamp ::
  "(nat \<Rightarrow> real) \<Rightarrow> BrushSettings \<Rightarrow> real \<Rightarrow> real \<Rightarrow> real \<Rightarrow> real \<Rightarrow> real \<Rightarrow> real \<Rightarrow> real
     \<Rightarrow> Layer \<Rightarrow> Layer outcome" where
  "splatterStamp rnd settings x y radiusX radiusY brushAngleRad targetSize opacity l =
     (let k = randomCalls l;
          angleOffset = (rnd k - 0.5) * pi;
          distOffset = (rnd (k + 1) * targetSize) / 2;
          bx = x + cos (brushAngleRad + angleOffset) * distOffset;
          by = y + sin (brushAngleRad + angleOffset) * distOffset
      in drawAndRecordEllipse (l\<lparr>randomCalls := k + 3\<rparr>) bx by (radiusX * 0.3) (radiusY * 0.3)
           brushAngleRad (color settings) (opacity * 0.4 * rnd (k + 2)) False)"

text \<open>
  The body of the loop of \<open>drawStroke\<close> for the index \<open>i\<close>; \<open>t\<close> is \<open>i / steps\<close>.
\<close>

definition strokeStep ::
  "(nat \<Rightarrow> real) \<Rightarrow> BrushSettings \<Rightarrow> Point \<Rightarrow> Point \<Rightarrow> real \<Rightarrow> real \<Rightarrow> real \<Rightarrow> Layer \<Rightarrow> Layer outcome" where
  "strokeStep rnd settings lastPoint currentPoint targetSize velocity t l =
     (let x = x_p lastPoint + (x_p currentPoint - x_p lastPoint) * t;
          y = y_p lastPoint + (y_p currentPoint - y_p lastPoint) * t;
          brushAngleRad = angle settings * (pi / 180);
          roughnessThreshold = rnd (randomCalls l);
          l1 = l\<lparr>randomCalls := randomCalls l + 1\<rparr>;
          dryBrushFactor = (velocity * roughness settings) / 5
      in if size_s settings > 1 \<and> roughnessThreshold < dryBrushFactor \<and> \<not> isEraser settings
         then Returns l1
         else
           (let radiusX = targetSize / 2;
                radiusY = (targetSize / 2) * roundness settings;
                opacity = (if size_s settings \<le> 1 then 1.0 else 1.0)
            in andThen
                 (drawAndRecordEllipse l1 x y radiusX radiusY brushAngleRad (color settings)
                    opacity (isEraser settings))
                 (\<lambda>l2.
                    if size_s settings > 1 \<and> (opacity < 0.9 \<or> roughness settings > 0.2)
                       \<and> \<not> isEraser settings
                    then
                      andThen
                        (andThen
                           (splatterStamp rnd settings x y radiusX radiusY brushAngleRad
                              targetSize opacity l2)
                           (splatterStamp rnd settings x y radiusX radiusY brushAngleRad
                              targetSize opacity))
                        (splatterStamp rnd settings x y radiusX radiusY brushAngleRad
                           targetSize opacity)
                    else Returns l2)))"

text \<open>
  \<open>steps = Math.ceil(dist / stepSize)\<close>, as the bound of \<open>for (i = 0; i < steps; i++)\<close>.
  With \<open>stepSize = 0\<close> the quotient is \<open>Infinity\<close> when \<open>dist\<close> is positive (the loop has no
  last index) and \<open>NaN\<close> when \<open>dist\<close> is zero (\<open>0 < NaN\<close> is false: no iteration).  A quotient
  that is not positive gives no iteration.
\<close>

definition strokeSteps :: "real \<Rightarrow> real \<Rightarrow> enat" where
  "strokeSteps distance stepSize =
     (if stepSize = 0 then (if distance = 0 then 0 else \<infinity>)
      else enat (nat \<lceil>distance / stepSize\<rceil>))"

text \<open>\<open>t = i / steps\<close>; a finite \<open>i\<close> over \<open>Infinity\<close> is \<open>0\<close>.\<close>

definition stepParam :: "nat \<Rightarrow> enat \<Rightarrow> real" where
  "stepParam i steps = (case steps of enat n \<Rightarrow> real i / real n | \<infinity> \<Rightarrow> 0)"

text \<open>
  The loop of \<open>drawStroke\<close> from the index \<open>i\<close> on.  It need not end: the value \<open>None\<close> is a
  loop that runs forever.
\<close>

partial_function (option) strokeLoop ::
  "(nat \<Rightarrow> real) \<Rightarrow> BrushSettings \<Rightarrow> Point \<Rightarrow> Point \<Rightarrow> real \<Rightarrow> real \<Rightarrow> enat \<Rightarrow> nat \<Rightarrow> Layer
     \<Rightarrow> Layer outcome option" where
  "strokeLoop rnd settings lastPoint currentPoint targetSize velocity steps i l =
     (if enat i < steps then
        (case strokeStep rnd settings lastPoint currentPoint targetSize velocity
                (stepParam i steps) l of
           Throws l' \<Rightarrow> Some (Throws l')
         | Returns l' \<Rightarrow>
             strokeLoop rnd settings lastPoint currentPoint targetSize velocity steps (Suc i) l')
      else Some (Returns l))"

section \<open>The state of the canvas component\<close>

record HistoryStep =
  imageData :: ImageData
  svgPaths :: "SvgEllipse list"

text \<open>
  The refs of \<open>CalligraphyCanvas\<close> the engine reads and writes.  \<open>drawingCanvas\<close> is the 2D
  context of the drawing canvas, \<open>None\<close> while \<open>drawingCanvasRef.current\<close> or its context is
  missing.  \<open>randomCount\<close> counts the calls of \<open>Math.random()\<close>.
\<close>

record AppState =
  drawingCanvas :: "Context2D option"
  drawingSvgRef :: "SvgEllipse list"
  textSvgRef :: "SvgEllipse list"
  historyRef :: "HistoryStep list"
  historyStepIndexRef :: int
  lastPointRef :: "Point option"
  isDrawingRef :: bool
  randomCount :: nat

text \<open>
  The first lines of \<open>drawStroke\<close>: the target size, the velocity and the distance of the
  segment, through the brush physics when \<open>size > 1\<close> and directly otherwise.
\<close>

definition strokeGeometry :: "BrushSettings \<Rightarrow> Point \<Rightarrow> Point \<Rightarrow> real \<times> real \<times> real" where
  "strokeGeometry settings lastPoint currentPoint =
     (if size_s settings > 1 then
        (let physics = calculateBrushPhysics lastPoint currentPoint settings
         in (ph_size physics, ph_velocity physics, ph_dist physics))
      else
        (if size_s settings = 0 then 0.5 else size_s settings,
         0,
         sqrt ((x_p currentPoint - x_p lastPoint) ^ 2 + (y_p currentPoint - y_p lastPoint) ^ 2)))"

definition strokeStepSize :: "BrushSettings \<Rightarrow> real \<Rightarrow> real" where
  "strokeStepSize settings targetSize =
     (let baseStep = max 0.5 (targetSize * 0.05);
          spacingFactor = spacing settings * targetSize * 1.5
      in baseStep + spacingFactor)"

text \<open>The context as \<open>drawStroke\<close> sets it up before the loop.\<close>

definition strokeContext :: "BrushSettings \<Rightarrow> real \<Rightarrow> Context2D \<Rightarrow> Context2D" where
  "strokeContext settings targetSize c =
     (let blurAmount = (if hardness settings \<ge> 0.95 \<or> size_s settings \<le> 1 then 0
                        else targetSize * (1 - hardness settings));
          c1 = c\<lparr>globalCompositeOperation :=
                   (if isEraser settings then DestinationOut else SourceOver)\<rparr>
      in if \<not> isEraser settings
         then (setShadowBlur blurAmount c1)\<lparr>shadowColor := color settings\<rparr>
         else setShadowBlur 0 c1)"

text \<open>
  \<open>drawStroke(currentPoint)\<close>.  The result is \<open>None\<close> when the call never returns,
  \<open>Some (Throws s)\<close> when a stamp throws (the lines after the loop are then not run), and
  \<open>Some (Returns s)\<close> otherwise.  The angle of the segment, which the source computes and
  never uses, is left out.
\<close>

definition drawStroke ::
  "(nat \<Rightarrow> real) \<Rightarrow> BrushSettings \<Rightarrow> Point \<Rightarrow> AppState \<Rightarrow> AppState outcome option" where
  "drawStroke rnd settings currentPoint s =
     (case drawingCanvas s of
        None \<Rightarrow> Some (Returns s)
      | Some c \<Rightarrow>
        (case lastPointRef s of
           None \<Rightarrow> Some (Returns s)
         | Some lastPoint \<Rightarrow>
           (case strokeGeometry settings lastPoint currentPoint of
              (targetSize, velocity, distance) \<Rightarrow>
                (case strokeLoop rnd settings lastPoint currentPoint targetSize velocity
                        (strokeSteps distance (strokeStepSize settings targetSize)) 0
                        \<lparr> ctx = strokeContext settings targetSize c,
                          svgRef = drawingSvgRef s,
                          randomCalls = randomCount s \<rparr> of
                   None \<Rightarrow> None
                 | Some (Throws l) \<Rightarrow>
                     Some (Throws (s\<lparr>drawingCanvas := Some (ctx l),
                                      drawingSvgRef := svgRef l,
                                      randomCount := randomCalls l\<rparr>))
                 | Some (Returns l) \<Rightarrow>
                     Some (Returns
                       (s\<lparr>drawingCanvas :=
                            Some ((setShadowBlur 0 (ctx l))
                                    \<lparr>globalCompositeOperation := SourceOver\<rparr>),
                          drawingSvgRef := svgRef l,
                          randomCount := randomCalls l\<rparr>))))))"

text \<open>
  The drawing part of \<open>handlePointerMove\<close> for one sample: draw if there is a last point,
  then make the sample the last point.  A throw leaves the handler at once.
\<close>

definition moveTo :: "(nat \<Rightarrow> real) \<Rightarrow> BrushSettings \<Rightarrow> Point \<Rightarrow> AppState \<Rightarrow> AppState outcome option" where
  "moveTo rnd settings currentPoint s =
     (case drawStroke rnd settings currentPoint s of
        None \<Rightarrow> None
      | Some (Throws s') \<Rightarrow> Some (Throws s')
      | Some (Returns s') \<Rightarrow> Some (Returns (s'\<lparr>lastPointRef := Some currentPoint\<rparr>)))"

text \<open>A drawing session: the samples of the pointer moves, in order.\<close>

fun strokeSession ::
  "(nat \<Rightarrow> real) \<Rightarrow> BrushSettings \<Rightarrow> Point list \<Rightarrow> AppState \<Rightarrow> AppState outcome option" where
  "strokeSession rnd settings [] s = Some (Returns s)"
| "strokeSession rnd settings (p # ps) s =
     (case moveTo rnd settings p s of
        None \<Rightarrow> None
      | Some (Throws s') \<Rightarrow> Some (Throws s')
      | Some (Returns s') \<Rightarrow> strokeSession rnd settings ps s')"

text \<open>The body of the vector export: the text entries, then the drawing entries.\<close>

definition svgContent :: "AppState \<Rightarrow> SvgEllipse list" where
  "svgContent s = textSvgRef s @ drawingSvgRef s"

section \<open>The history (saveHistory, performUndo, performRedo)\<close>

definition MAX_HISTORY :: nat where
  "MAX_HISTORY = 20"

text \<open>\<open>xs.slice(0, e)\<close>: a negative \<open>e\<close> counts from the end.\<close>

definition slice0 :: "'a list \<Rightarrow> int \<Rightarrow> 'a list" where
  "slice0 xs e = (if e < 0 then take (nat (int (length xs) + e)) xs else take (nat e) xs)"

text \<open>\<open>xs[i]\<close>: \<open>undefined\<close> outside the list.\<close>

definition elemAt :: "'a list \<Rightarrow> int \<Rightarrow> 'a option" where
  "elemAt xs i = (if 0 \<le> i \<and> i < int (length xs) then Some (xs ! nat i) else None)"

definition saveHistory :: "AppState \<Rightarrow> AppState" where
  "saveHistory s =
     (case drawingCanvas s of
        None \<Rightarrow> s
      | Some c \<Rightarrow>
        (let h = (if historyStepIndexRef s < int (length (historyRef s)) - 1
                  then slice0 (historyRef s) (historyStepIndexRef s + 1)
                  else historyRef s);
             h' = h @ [\<lparr> imageData = pixels c, svgPaths = drawingSvgRef s \<rparr>]
         in if length h' > MAX_HISTORY
            then s\<lparr>historyRef := tl h'\<rparr>
            else s\<lparr>historyRef := h', historyStepIndexRef := historyStepIndexRef s + 1\<rparr>))"

text \<open>The restore shared by undo and redo, after the index has moved.\<close>

definition restoreStep :: "AppState \<Rightarrow> AppState" where
  "restoreStep s =
     (case drawingCanvas s of
        None \<Rightarrow> s
      | Some c \<Rightarrow>
        (case elemAt (historyRef s) (historyStepIndexRef s) of
           None \<Rightarrow> s
         | Some step \<Rightarrow>
             s\<lparr>drawingCanvas := Some (c\<lparr>pixels := imageData step\<rparr>),
               drawingSvgRef := svgPaths step\<rparr>))"

definition performUndo :: "AppState \<Rightarrow> AppState" where
  "performUndo s =
     (if historyStepIndexRef s > 0
      then restoreStep (s\<lparr>historyStepIndexRef := historyStepIndexRef s - 1\<rparr>)
      else s)"

definition performRedo :: "AppState \<Rightarrow> AppState" where
  "performRedo s =
     (if historyStepIndexRef s < int (length (historyRef s)) - 1
      then restoreStep (s\<lparr>historyStepIndexRef := historyStepIndexRef s + 1\<rparr>)
      else s)"

text \<open>
  The state after the mount effect: the drawing canvas was sized (a fresh, blank context),
  the history was empty, so it holds the blank step at index \<open>0\<close>.
\<close>

definition blankStep :: HistoryStep where
  "blankStep = \<lparr> imageData = [], svgPaths = [] \<rparr>"

definition initialState :: AppState where
  "initialState =
     \<lparr> drawingCanvas = Some freshContext,
       drawingSvgRef = [],
       textSvgRef = [],
       historyRef = [blankStep],
       historyStepIndexRef = 0,
       lastPointRef = None,
       isDrawingRef = False,
       randomCount = 0 \<rparr>"

text \<open>
  What a finished stroke does to the history: whatever was drawn since the last save has
  left the drawing layer with some raster and some vector log, and \<open>handlePointerUp\<close> then
  calls \<open>saveHistory\<close>.  \<open>drawn\<close> puts a raster and a log on the drawing layer.
\<close>

definition drawn :: "ImageData \<times> SvgEllipse list \<Rightarrow> AppState \<Rightarrow> AppState" where
  "drawn content s =
     (case drawingCanvas s of
        None \<Rightarrow> s
      | Some c \<Rightarrow> s\<lparr>drawingCanvas := Some (c\<lparr>pixels := fst content\<rparr>),
                     drawingSvgRef := snd content\<rparr>)"

definition saves :: "(ImageData \<times> SvgEllipse list) list \<Rightarrow> AppState \<Rightarrow> AppState" where
  "saves contents s = foldl (\<lambda>s' content. saveHistory (drawn content s')) s contents"

definition undos :: "nat \<Rightarrow> AppState \<Rightarrow> AppState" where
  "undos n s = (performUndo ^^ n) s"

text \<open>What the user sees of the drawing layer: its raster and its vector log.\<close>

definition drawingLayer :: "AppState \<Rightarrow> (ImageData \<times> SvgEllipse list) option" where
  "drawingLayer s = map_option (\<lambda>c. (pixels c, drawingSvgRef s)) (drawingCanvas s)"

text \<open>
  A history step from the content of the drawing layer, the actions that touch the history
  (a finished stroke or a clear saves; undo; redo), and the invariant of the history: a
  drawing canvas, and an index within the retained steps, of which there are at most
  \<open>MAX_HISTORY\<close>.  \<open>inkStamp\<close> and \<open>inkEntry\<close> are one stamp of ink and its log entry, for
  concrete sessions.
\<close>

definition stepOf :: "ImageData \<times> SvgEllipse list \<Rightarrow> HistoryStep" where
  "stepOf content = \<lparr> imageData = fst content, svgPaths = snd content \<rparr>"

datatype HistoryAction = StrokeEnd "ImageData \<times> SvgEllipse list" | Undo | Redo

fun applyAction :: "AppState \<Rightarrow> HistoryAction \<Rightarrow> AppState" where
  "applyAction s (StrokeEnd content) = saveHistory (drawn content s)"
| "applyAction s Undo = performUndo s"
| "applyAction s Redo = performRedo s"

definition runActions :: "HistoryAction list \<Rightarrow> AppState \<Rightarrow> AppState" where
  "runActions acts s = foldl applyAction s acts"

definition inkStamp :: PaintOp where
  "inkStamp = \<lparr> op_x = 0, op_y = 0, op_rx = 15, op_ry = 15, op_rotation = 0,
                 op_fill = ''#1a1a1a'', op_alpha = 1, op_composite = SourceOver,
                 op_blur = 0, op_blurColor = ''#1a1a1a'' \<rparr>"

definition inkEntry :: SvgEllipse where
  "inkEntry = \<lparr> svg_cx = 0, svg_cy = 0, svg_rx = 15, svg_ry = 15, svg_rotDeg = 0,
                 svg_fill = ''#1a1a1a'', svg_opacity = 1 \<rparr>"

definition hist_inv :: "AppState \<Rightarrow> bool" where
  "hist_inv s = (drawingCanvas s \<noteq> None \<and> 0 \<le> historyStepIndexRef s
     \<and> historyStepIndexRef s < int (length (historyRef s))
     \<and> length (historyRef s) \<le> MAX_HISTORY)"

section \<open>Concrete inputs\<close>

text \<open>
  The configuration of the end-to-end scenario of the specification, with fixed values in
  the fields the scenario leaves open, and samples by their four fields.
\<close>

definition scenarioSettings :: BrushSettings where
  "scenarioSettings =
     \<lparr> size_s = 20, roughness = 0, taper = 0, color = ''#1a1a1a'', roundness = 1, angle = 85,
       hardness = 1, spacing = 0, letterSpacing = 0, lineHeight = 1.2, slant = 0,
       fontSize = 100, fontStyle = BRUSH, weightOption = NORMAL, isEraser = False \<rparr>"

definition sample :: "real \<Rightarrow> real \<Rightarrow> real \<Rightarrow> real \<Rightarrow> Point" where
  "sample x y p t = \<lparr> x_p = x, y_p = y, pressure = p, time = t \<rparr>"

section \<open>Observations and closed forms\<close>

text \<open>
  What the statements below read off a result: the state an outcome carries, the state of
  a call that returned, and the raster of the drawing layer.  \<open>stampOp\<close> and \<open>stampEntry\<close> are
  the fill and the log entry of the main stamp of a step at the parameter \<open>t\<close>, under the
  drawing state \<open>c\<close>; \<open>plainStroke\<close> is the layer after the steps \<open>i, ..., n - 1\<close> of a loop in
  which no stamp is skipped and no splatter is drawn.
\<close>

definition outcomeState :: "'a outcome \<Rightarrow> 'a" where
  "outcomeState r = (case r of Returns a \<Rightarrow> a | Throws a \<Rightarrow> a)"

definition returned :: "'a outcome option \<Rightarrow> 'a option" where
  "returned r = (case r of Some (Returns a) \<Rightarrow> Some a | _ \<Rightarrow> None)"

definition rasterOf :: "AppState \<Rightarrow> ImageData" where
  "rasterOf s = (case drawingCanvas s of None \<Rightarrow> [] | Some c \<Rightarrow> pixels c)"

definition stampOp ::
  "BrushSettings \<Rightarrow> Point \<Rightarrow> Point \<Rightarrow> real \<Rightarrow> real \<Rightarrow> Context2D \<Rightarrow> PaintOp" where
  "stampOp settings lastPoint currentPoint targetSize t c =
     \<lparr> op_x = x_p lastPoint + (x_p currentPoint - x_p lastPoint) * t,
       op_y = y_p lastPoint + (y_p currentPoint - y_p lastPoint) * t,
       op_rx = targetSize / 2,
       op_ry = (targetSize / 2) * roundness settings,
       op_rotation = angle settings * (pi / 180),
       op_fill = color settings,
       op_alpha = 1,
       op_composite = globalCompositeOperation c,
       op_blur = shadowBlur c,
       op_blurColor = shadowColor c \<rparr>"

definition stampEntry ::
  "BrushSettings \<Rightarrow> Point \<Rightarrow> Point \<Rightarrow> real \<Rightarrow> real \<Rightarrow> SvgEllipse" where
  "stampEntry settings lastPoint currentPoint targetSize t =
     \<lparr> svg_cx = x_p lastPoint + (x_p currentPoint - x_p lastPoint) * t,
       svg_cy = y_p lastPoint + (y_p currentPoint - y_p lastPoint) * t,
       svg_rx = targetSize / 2,
       svg_ry = (targetSize / 2) * roundness settings,
       svg_rotDeg = (angle settings * (pi / 180) * 180) / pi,
       svg_fill = color settings,
       svg_opacity = 1 \<rparr>"

definition plainStroke ::
  "BrushSettings \<Rightarrow> Point \<Rightarrow> Point \<Rightarrow> real \<Rightarrow> nat \<Rightarrow> nat \<Rightarrow> Layer \<Rightarrow> Layer" where
  "plainStroke settings lastPoint currentPoint targetSize n i l =
     \<lparr> ctx = (ctx l)\<lparr>
         globalAlpha := (if i < n then 1 else globalAlpha (ctx l)),
         fillStyle := (if i < n then color settings else fillStyle (ctx l)),
         pixels := pixels (ctx l) @
           map (\<lambda>j. stampOp settings lastPoint currentPoint targetSize (real j / real n) (ctx l))
             [i..<n]\<rparr>,
       svgRef = svgRef l @
         (if isEraser settings then []
          else map (\<lambda>j. stampEntry settings lastPoint currentPoint targetSize (real j / real n))
                 [i..<n]),
       randomCalls = randomCalls l + (n - i) \<rparr>"

text \<open>
  The drawing context is clean when it composites with \<open>source-over\<close> and has no glow.  A
  stroke is well formed when its loop has a last index and no radius is negative.
\<close>

definition ctxClean :: "AppState \<Rightarrow> bool" where
  "ctxClean s = (case drawingCanvas s of None \<Rightarrow> True
     | Some c \<Rightarrow> globalCompositeOperation c = SourceOver \<and> shadowBlur c = 0)"

definition strokeWellFormed :: "BrushSettings \<Rightarrow> Point \<Rightarrow> AppState \<Rightarrow> bool" where
  "strokeWellFormed settings currentPoint s =
     (case lastPointRef s of
        None \<Rightarrow> True
      | Some lastPoint \<Rightarrow>
        (case strokeGeometry settings lastPoint currentPoint of
           (targetSize, velocity, distance) \<Rightarrow>
             strokeSteps distance (strokeStepSize settings targetSize) \<noteq> \<infinity>
             \<and> 0 \<le> targetSize / 2 \<and> 0 \<le> (targetSize / 2) * roundness settings))"

text \<open>
  A source of random numbers that returns the same value at every call; the stamp size of
  the branch \<open>size \<le> 1\<close> of \<open>drawStroke\<close>; the layer a stroke starts from and the state it
  ends in when its loop returns.
\<close>

definition constRandom :: "real \<Rightarrow> nat \<Rightarrow> real" where
  "constRandom v k = v"

definition hairlineSize :: "BrushSettings \<Rightarrow> real" where
  "hairlineSize settings = (if size_s settings = 0 then 0.5 else size_s settings)"

definition strokeStart :: "BrushSettings \<Rightarrow> real \<Rightarrow> Context2D \<Rightarrow> AppState \<Rightarrow> Layer" where
  "strokeStart settings targetSize c s =
     \<lparr> ctx = strokeContext settings targetSize c, svgRef = drawingSvgRef s,
       randomCalls = randomCount s \<rparr>"

definition strokeEnd :: "AppState \<Rightarrow> Layer \<Rightarrow> AppState" where
  "strokeEnd s l =
     s\<lparr>drawingCanvas := Some ((setShadowBlur 0 (ctx l))\<lparr>globalCompositeOperation := SourceOver\<rparr>),
       drawingSvgRef := svgRef l,
       randomCount := randomCalls l\<rparr>"

text \<open>
  A hairline configuration of size \<open>0.6\<close>, and the state of the component right after a
  pointer went down at a sample on the freshly mounted canvas.
\<close>

definition hairlineSettings :: BrushSettings where
  "hairlineSettings = scenarioSettings\<lparr>size_s := 0.6\<rparr>"

definition penDown :: "Point \<Rightarrow> AppState" where
  "penDown p = initialState\<lparr>lastPointRef := Some p, isDrawingRef := True\<rparr>"

text \<open>The configuration of the scenario with the eraser switched on.\<close>

definition eraserSettings :: BrushSettings where
  "eraserSettings = scenarioSettings\<lparr>isEraser := True\<rparr>"

section \<open>The text animation (animateText in renderGenerativeText)\<close>

text \<open>
  The particles are the positions scanned from the rasterised text, in the order the
  shuffle left them; rasterising and scanning the glyphs is outside the model.  The state
  of the animation is the text layer and \<open>particleIndex\<close>.
\<close>

record Particle =
  part_x :: real
  part_y :: real

record TextAnim =
  layer :: Layer
  particleIndex :: nat

definition batchSize :: nat where
  "batchSize = 1000"

definition particleSize :: "WeightOption \<Rightarrow> real" where
  "particleSize w = (case w of THIN \<Rightarrow> 1.6 | NORMAL \<Rightarrow> 3.5 | BOLD \<Rightarrow> 6.0)"

text \<open>The roughness and the roundness of the text stamps, by mode and font style.\<close>

definition textRoughness :: "AppMode \<Rightarrow> FontStyle \<Rightarrow> real" where
  "textRoughness mode style =
     (if mode = GENERATE
      then (if style = BRUSH then 0.4 else if style = PEN then 0.05 else 0.02)
      else 0)"

definition textRoundness :: "AppMode \<Rightarrow> FontStyle \<Rightarrow> real" where
  "textRoundness mode style =
     (if mode = GENERATE
      then (if style = BRUSH then 0.6 else if style = PEN then 0.95 else 1.0)
      else 1.0)"

text \<open>
  The stamp of one particle: four random numbers (two for the jiggle, one for the size, one
  for the opacity), then \<open>drawAndRecordEllipse\<close> on the text layer and \<open>particleIndex++\<close>.
\<close>

definition stampParticle ::
  "(nat \<Rightarrow> real) \<Rightarrow> AppMode \<Rightarrow> BrushSettings \<Rightarrow> Particle \<Rightarrow> TextAnim \<Rightarrow> TextAnim outcome" where
  "stampParticle rnd mode settings p a =
     (let l = layer a;
          k = randomCalls l;
          brushAngleRad = 45 * (pi / 180);
          jiggle = (if weightOption settings = THIN then 0.1
                    else textRoughness mode (fontStyle settings) * 1.5);
          jx = part_x p + (rnd k - 0.5) * jiggle;
          jy = part_y p + (rnd (k + 1) - 0.5) * jiggle;
          currentParticleSize = particleSize (weightOption settings) * (0.85 + rnd (k + 2) * 0.3);
          radiusX = currentParticleSize / 2;
          radiusY = (currentParticleSize / 2) * textRoundness mode (fontStyle settings);
          opacity = 0.95 + rnd (k + 3) * 0.05
      in case drawAndRecordEllipse (l\<lparr>randomCalls := k + 4\<rparr>) jx jy radiusX radiusY brushAngleRad
                (color settings) opacity False of
           Returns l' \<Rightarrow> Returns (a\<lparr>layer := l', particleIndex := particleIndex a + 1\<rparr>)
         | Throws l' \<Rightarrow> Throws (a\<lparr>layer := l'\<rparr>))"

text \<open>
  The body of the loop of a frame for the particle \<open>p\<close>.  \<open>Math.random()\<close> of the drop test is
  only called when the mode is \<open>GENERATE\<close> and the style is \<open>BRUSH\<close>.
\<close>

definition animateParticle ::
  "(nat \<Rightarrow> real) \<Rightarrow> AppMode \<Rightarrow> BrushSettings \<Rightarrow> Particle \<Rightarrow> TextAnim \<Rightarrow> TextAnim outcome" where
  "animateParticle rnd mode settings p a =
     (if mode = GENERATE \<and> fontStyle settings = BRUSH
      then
        (let l = layer a;
             a1 = a\<lparr>layer := l\<lparr>randomCalls := randomCalls l + 1\<rparr>\<rparr>
         in if rnd (randomCalls l) < 0.1
            then Returns (a1\<lparr>particleIndex := particleIndex a + 1\<rparr>)
            else stampParticle rnd mode settings p a1)
      else stampParticle rnd mode settings p a)"

text \<open>The loop of a frame, with the number of iterations left.\<close>

fun animateBatch ::
  "(nat \<Rightarrow> real) \<Rightarrow> AppMode \<Rightarrow> BrushSettings \<Rightarrow> Particle list \<Rightarrow> nat \<Rightarrow> TextAnim
     \<Rightarrow> TextAnim outcome" where
  "animateBatch rnd mode settings particles 0 a = Returns a"
| "animateBatch rnd mode settings particles (Suc n) a =
     (if particleIndex a \<ge> length particles then Returns a
      else andThen (animateParticle rnd mode settings (particles ! particleIndex a) a)
             (animateBatch rnd mode settings particles n))"

text \<open>
  One frame, \<open>animateText\<close>: nothing when the queue is exhausted (and no further frame is
  requested); otherwise the glow is set, a batch is stamped, and the glow is reset.
\<close>

definition animateText ::
  "(nat \<Rightarrow> real) \<Rightarrow> AppMode \<Rightarrow> BrushSettings \<Rightarrow> Particle list \<Rightarrow> TextAnim \<Rightarrow> TextAnim outcome" where
  "animateText rnd mode settings particles a =
     (if particleIndex a \<ge> length particles then Returns a
      else
        (let l = layer a;
             c1 = (setShadowBlur (if weightOption settings \<noteq> THIN then 1 else 0) (ctx l))
                    \<lparr>shadowColor := color settings\<rparr>
         in case animateBatch rnd mode settings particles batchSize (a\<lparr>layer := l\<lparr>ctx := c1\<rparr>\<rparr>) of
              Returns a' \<Rightarrow>
                Returns (a'\<lparr>layer := (layer a')\<lparr>ctx := setShadowBlur 0 (ctx (layer a'))\<rparr>\<rparr>)
            | Throws a' \<Rightarrow> Throws a'))"

lemma andThen_Returns_iff:
  "andThen r f = Returns b \<longleftrightarrow> (\<exists>a. r = Returns a \<and> f a = Returns b)"
  by (cases r) (simp_all add: andThen_def)

lemma stampParticle_index:
  "stampParticle rnd mode settings p a = Returns a' \<Longrightarrow> particleIndex a' = Suc (particleIndex a)"
  by (auto simp: stampParticle_def Let_def split: outcome.splits)

lemma animateParticle_index:
  "animateParticle rnd mode settings p a = Returns a' \<Longrightarrow> particleIndex a' = Suc (particleIndex a)"
  by (auto simp: animateParticle_def Let_def split: if_splits dest: stampParticle_index)

lemma animateBatch_index_mono:
  "animateBatch rnd mode settings particles n a = Returns a' \<Longrightarrow> particleIndex a \<le> particleIndex a'"
proof (induction n arbitrary: a)
  case 0
  then show ?case by simp
next
  case (Suc n)
  show ?case
  proof (cases "particleIndex a \<ge> length particles")
    case True
    with Suc.prems show ?thesis by simp
  next
    case False
    with Suc.prems obtain a1 where
      1: "animateParticle rnd mode settings (particles ! particleIndex a) a = Returns a1"
      and 2: "animateBatch rnd mode settings particles n a1 = Returns a'"
      by (auto simp: andThen_Returns_iff)
    from animateParticle_index [OF 1] Suc.IH [OF 2] show ?thesis by simp
  qed
qed

lemma animateBatch_progress:
  assumes "animateBatch rnd mode settings particles (Suc n) a = Returns a'"
    "particleIndex a < length particles"
  shows "particleIndex a < particleIndex a'"
proof -
  from assms obtain a1 where
    1: "animateParticle rnd mode settings (particles ! particleIndex a) a = Returns a1"
    and 2: "animateBatch rnd mode settings particles n a1 = Returns a'"
    by (auto simp: andThen_Returns_iff)
  from animateParticle_index [OF 1] animateBatch_index_mono [OF 2] show ?thesis by simp
qed

lemma animateText_progress:
  assumes "animateText rnd mode settings particles a = Returns a'"
    "particleIndex a < length particles"
  shows "particleIndex a < particleIndex a'"
proof -
  let ?a0 = "a\<lparr>layer := (layer a)\<lparr>ctx :=
      (setShadowBlur (if weightOption settings \<noteq> THIN then 1 else 0) (ctx (layer a)))
         \<lparr>shadowColor := color settings\<rparr>\<rparr>\<rparr>"
  from assms obtain b where
    b: "animateBatch rnd mode settings particles (Suc 999) ?a0 = Returns b"
    and a': "a' = b\<lparr>layer := (layer b)\<lparr>ctx := setShadowBlur 0 (ctx (layer b))\<rparr>\<rparr>"
    by (auto simp: animateText_def Let_def batchSize_def split: outcome.splits)
  from animateBatch_progress [OF b] assms(2) have "particleIndex a < particleIndex b" by simp
  then show ?thesis by (simp add: a')
qed

text \<open>
  The whole animation: frames are requested until one finds the queue exhausted.  (A new
  render or a clear would cancel the chain; cancellation is not part of this model.)
\<close>

function runAnimation ::
  "(nat \<Rightarrow> real) \<Rightarrow> AppMode \<Rightarrow> BrushSettings \<Rightarrow> Particle list \<Rightarrow> TextAnim \<Rightarrow> TextAnim outcome" where
  "runAnimation rnd mode settings particles a =
     (if particleIndex a \<ge> length particles then Returns a
      else (case animateText rnd mode settings particles a of
              Returns a' \<Rightarrow> runAnimation rnd mode settings particles a'
            | Throws a' \<Rightarrow> Throws a'))"
  by pat_completeness auto
termination
proof (relation "measure (\<lambda>(rnd, mode, settings, particles, a). length particles - particleIndex a)")
  show "wf (measure (\<lambda>(rnd, mode, settings, particles, a). length particles - particleIndex a))"
    by simp
next
  fix rnd :: "nat \<Rightarrow> real" and mode settings and particles :: "Particle list" and a a'
  assume "\<not> length particles \<le> particleIndex a"
    and "animateText rnd mode settings particles a = Returns a'"
  then show "((rnd, mode, settings, particles, a'), (rnd, mode, settings, particles, a))
      \<in> measure (\<lambda>(rnd, mode, settings, particles, a). length particles - particleIndex a)"
    using animateText_progress [of rnd mode settings particles a a'] by simp
qed

text \<open>
  The number of fills on the text raster and of entries in the text log; two text
  configurations; the animation state right after a render cleared the text layer.
\<close>

definition stampCount :: "TextAnim \<Rightarrow> nat" where
  "stampCount a = length (pixels (ctx (layer a)))"

definition logCount :: "TextAnim \<Rightarrow> nat" where
  "logCount a = length (svgRef (layer a))"

definition brushThin :: BrushSettings where
  "brushThin = scenarioSettings\<lparr>fontStyle := BRUSH, weightOption := THIN\<rparr>"

definition textStart :: TextAnim where
  "textStart = \<lparr> layer = \<lparr> ctx = freshContext, svgRef = [], randomCalls = 0 \<rparr>, particleIndex = 0 \<rparr>"

definition penNormal :: BrushSettings where
  "penNormal = scenarioSettings\<lparr>fontStyle := PEN, weightOption := NORMAL\<rparr>"

definition particleAt :: "real \<Rightarrow> real \<Rightarrow> Particle" where
  "particleAt x y = \<lparr> part_x = x, part_y = y \<rparr>"

section \<open>The velocity over binary64 doubles\<close>

text \<open>
  The real numbers have no \<open>Infinity\<close> and no \<open>NaN\<close>, and they neither overflow nor round.  To
  speak about the special values, the velocity of \<open>calculateBrushPhysics\<close> is modelled a second
  time, over the doubles of IEEE 754 (binary64), the numbers of JavaScript: a number is a
  finite double, an infinity or \<open>NaN\<close>, and every operation rounds its exact result to the
  nearest double, ties to the even significand.

  A finite double is \<open>m * 2 ^ e\<close> with an integer \<open>m\<close> of magnitude below \<open>2 ^ 53\<close> and
  \<open>-1074 \<le> e \<le> 971\<close>.  For a real \<open>r\<close>, \<open>exponentOf r\<close> is the exponent of its binade, never
  below \<open>-1022\<close> (below that the doubles are subnormal and equally spaced), and \<open>ulp r\<close> is the
  distance between neighbouring doubles there.  An exact result of magnitude
  \<open>2 ^ 1024 - 2 ^ 970\<close> or more, halfway between the largest double and \<open>2 ^ 1024\<close>, rounds to an
  infinity; a result close enough to zero rounds to zero.  The sign of a zero is not modelled:
  it has no influence on \<open>timeDiff > 0\<close> nor on a result being finite.
\<close>

datatype jsnum = Fin real | PosInf | NegInf | NaN

definition exponentOf :: "real \<Rightarrow> int" where
  "exponentOf r = max \<lfloor>log 2 \<bar>r\<bar>\<rfloor> (- 1022)"

definition ulp :: "real \<Rightarrow> real" where
  "ulp r = 2 powr real_of_int (exponentOf r - 52)"

text \<open>The nearest integer, ties to the even one.\<close>

definition roundHalfEven :: "real \<Rightarrow> int" where
  "roundHalfEven q =
     (let f = \<lfloor>q\<rfloor>
      in if q - real_of_int f < 1 / 2 then f
         else if q - real_of_int f > 1 / 2 then f + 1
         else if even f then f else f + 1)"

text \<open>Rounding to the nearest double.\<close>

definition overflowThreshold :: real where
  "overflowThreshold = 2 ^ 1024 - 2 ^ 970"

definition roundDouble :: "real \<Rightarrow> jsnum" where
  "roundDouble r =
     (if r = 0 then Fin 0
      else if r \<ge> overflowThreshold then PosInf
      else if r \<le> - overflowThreshold then NegInf
      else Fin (real_of_int (roundHalfEven (r / ulp r)) * ulp r))"

text \<open>\<open>2 ^ k\<close> for an integer \<open>k\<close>.\<close>

definition twoTo :: "int \<Rightarrow> real" where
  "twoTo k = 2 powr real_of_int k"


text \<open>
  The operations of the velocity: \<open>a - b\<close>, \<open>a + b\<close>, \<open>Math.pow(a, 2)\<close>, \<open>Math.sqrt(a)\<close>, \<open>a > 0\<close>
  and \<open>a / b\<close>.  \<open>Math.pow(a, 2)\<close> and \<open>Math.sqrt(a)\<close> are taken as correctly rounded: the square
  and the square root, rounded to the nearest double.  The special values follow IEEE 754.
\<close>

fun subJS :: "jsnum \<Rightarrow> jsnum \<Rightarrow> jsnum" where
  "subJS (Fin a) (Fin b) = roundDouble (a - b)"
| "subJS NaN _ = NaN"
| "subJS _ NaN = NaN"
| "subJS PosInf PosInf = NaN"
| "subJS NegInf NegInf = NaN"
| "subJS PosInf _ = PosInf"
| "subJS NegInf _ = NegInf"
| "subJS (Fin a) PosInf = NegInf"
| "subJS (Fin a) NegInf = PosInf"

fun addJS :: "jsnum \<Rightarrow> jsnum \<Rightarrow> jsnum" where
  "addJS (Fin a) (Fin b) = roundDouble (a + b)"
| "addJS NaN _ = NaN"
| "addJS _ NaN = NaN"
| "addJS PosInf NegInf = NaN"
| "addJS NegInf PosInf = NaN"
| "addJS PosInf _ = PosInf"
| "addJS NegInf _ = NegInf"
| "addJS (Fin a) PosInf = PosInf"
| "addJS (Fin a) NegInf = NegInf"

fun pow2JS :: "jsnum \<Rightarrow> jsnum" where
  "pow2JS (Fin a) = roundDouble (a * a)"
| "pow2JS PosInf = PosInf"
| "pow2JS NegInf = PosInf"
| "pow2JS NaN = NaN"

fun sqrtJS :: "jsnum \<Rightarrow> jsnum" where
  "sqrtJS (Fin a) = (if a < 0 then NaN else roundDouble (sqrt a))"
| "sqrtJS PosInf = PosInf"
| "sqrtJS NegInf = NaN"
| "sqrtJS NaN = NaN"

text \<open>\<open>a > 0\<close>: false for \<open>NaN\<close>.\<close>

fun gtZeroJS :: "jsnum \<Rightarrow> bool" where
  "gtZeroJS (Fin a) = (a > 0)"
| "gtZeroJS PosInf = True"
| "gtZeroJS NegInf = False"
| "gtZeroJS NaN = False"

text \<open>\<open>a / b\<close>; a zero divisor is taken as \<open>+0\<close> (the velocity only divides by a number \<open>> 0\<close>).\<close>

fun divJS :: "jsnum \<Rightarrow> jsnum \<Rightarrow> jsnum" where
  "divJS (Fin a) (Fin b) =
     (if b = 0 then (if a = 0 then NaN else if a > 0 then PosInf else NegInf)
      else roundDouble (a / b))"
| "divJS NaN _ = NaN"
| "divJS _ NaN = NaN"
| "divJS (Fin a) PosInf = Fin 0"
| "divJS (Fin a) NegInf = Fin 0"
| "divJS PosInf (Fin b) = (if b \<ge> 0 then PosInf else NegInf)"
| "divJS NegInf (Fin b) = (if b \<ge> 0 then NegInf else PosInf)"
| "divJS PosInf _ = NaN"
| "divJS NegInf _ = NaN"

text \<open>\<open>getDistance\<close> and the velocity of \<open>calculateBrushPhysics\<close> on the samples' numbers.\<close>

definition getDistanceJS :: "Point \<Rightarrow> Point \<Rightarrow> jsnum" where
  "getDistanceJS p1 p2 =
     sqrtJS (addJS (pow2JS (subJS (Fin (x_p p2)) (Fin (x_p p1))))
                   (pow2JS (subJS (Fin (y_p p2)) (Fin (y_p p1)))))"

definition velocityJS :: "Point \<Rightarrow> Point \<Rightarrow> jsnum" where
  "velocityJS lastPoint currentPoint =
     (let dist = getDistanceJS lastPoint currentPoint;
          timeDiff = subJS (Fin (time currentPoint)) (Fin (time lastPoint))
      in if gtZeroJS timeDiff then divJS dist timeDiff else Fin 0)"


section \<open>The shuffle (particles.sort with a random comparator)\<close>

text \<open>
  \<open>particles.sort(() => Math.random() - 0.5)\<close>.  The comparator is in the source;
  \<open>Array.prototype.sort\<close> is the JavaScript engine's.  The comparator is not a consistent
  ordering, and for such a comparator ECMAScript leaves the resulting order to the
  implementation, so the result is that of the engine's procedure.  The model follows V8, the
  engine of Chrome and Node.js (\<open>third_party/v8/builtins/array-sort.tq\<close>, a TimSort).  On an
  array of fewer than 64 elements it finds the run at the start of the array
  (\<open>CountAndMakeRun\<close>), reverses it when it is descending (\<open>ReverseRange\<close>), and inserts every
  further element into the sorted part by binary search (\<open>BinaryInsertionSort\<close>).  Runs are
  merged only from 64 elements on; merging is not modelled, and the model gives no result for
  such an array.

  The procedure branches on \<open>order < 0\<close> only.  The comparator ignores its arguments, so its
  \<open>k\<close>-th call returns a negative number exactly when the \<open>k\<close>-th random number is below \<open>0.5\<close>.
  Every function below carries the number \<open>k\<close> of comparator calls made so far.
\<close>














section \<open>Properties of the brush physics\<close>

lemma getDistance_nonneg: "0 \<le> getDistance p q"
  by (simp add: getDistance_def)

lemma segmentVelocity_nonneg: "0 \<le> segmentVelocity p q"
  by (simp add: segmentVelocity_def Let_def getDistance_nonneg)

lemma pressureInput_range: "0 \<le> pressureInput p q \<and> pressureInput p q \<le> 1"
proof (cases "pressure q \<ge> 0 \<and> pressure q \<le> 1")
  case True
  then show ?thesis by (simp add: pressureInput_def)
next
  case False
  have "0 \<le> segmentVelocity p q / 2.5"
    using segmentVelocity_nonneg [of p q] by simp
  then have "0 \<le> min 1 (segmentVelocity p q / 2.5)" "min 1 (segmentVelocity p q / 2.5) \<le> 1"
    by simp_all
  with False show ?thesis by (simp add: pressureInput_def Let_def)
qed

lemma pressureInput_reported:
  "0 \<le> pressure q \<Longrightarrow> pressure q \<le> 1 \<Longrightarrow> pressureInput p q = pressure q"
  by (simp add: pressureInput_def)

text \<open>
  Claim C5.  For a configuration with \<open>size > 1\<close> the target size computed by
  \<open>calculateBrushPhysics\<close> is \<open>(size * 1.5) * (1 - (1 - p) * taper)\<close>, where \<open>p\<close> is the
  effective pressure, a number in \<open>[0, 1]\<close> that is the reported pressure whenever that lies
  in \<open>[0, 1]\<close>.  With \<open>taper = 0\<close> the target size is \<open>size * 1.5\<close> whatever the pressure; with
  \<open>taper = 1\<close> it is non-decreasing in the pressure, \<open>size * 1.5\<close> at pressure 1 and \<open>0\<close> at
  pressure 0.
\<close>

theorem targetSize_pressure_taper:
  "size_s settings > 1 \<Longrightarrow>
     ph_size (calculateBrushPhysics lastPoint cur settings)
       = (size_s settings * 1.5) * (1 - (1 - pressureInput lastPoint cur) * taper settings)
     \<and> 0 \<le> pressureInput lastPoint cur \<and> pressureInput lastPoint cur \<le> 1
     \<and> (0 \<le> pressure cur \<and> pressure cur \<le> 1 \<longrightarrow> pressureInput lastPoint cur = pressure cur)
     \<and> (taper settings = 0 \<longrightarrow>
           ph_size (calculateBrushPhysics lastPoint cur settings) = size_s settings * 1.5)
     \<and> (taper settings = 1 \<and> pressureInput lastPoint cur \<le> pressureInput lastPoint' cur' \<longrightarrow>
           ph_size (calculateBrushPhysics lastPoint cur settings)
             \<le> ph_size (calculateBrushPhysics lastPoint' cur' settings))
     \<and> (taper settings = 1 \<and> pressure cur = 1 \<longrightarrow>
           ph_size (calculateBrushPhysics lastPoint cur settings) = size_s settings * 1.5)
     \<and> (taper settings = 1 \<and> pressure cur = 0 \<longrightarrow>
           ph_size (calculateBrushPhysics lastPoint cur settings) = 0)"
proof -
  assume big: "size_s settings > 1"
  have eq: "ph_size (calculateBrushPhysics lastPoint cur settings)
           = (size_s settings * 1.5) * (1 - (1 - pressureInput lastPoint cur) * taper settings)"
    by (simp add: calculateBrushPhysics_def Let_def)
  have reported: "0 \<le> pressure cur \<and> pressure cur \<le> 1 \<longrightarrow> pressureInput lastPoint cur = pressure cur"
    by (simp add: pressureInput_reported)
  have const: "taper settings = 0 \<longrightarrow>
           ph_size (calculateBrushPhysics lastPoint cur settings) = size_s settings * 1.5"
    by (simp add: calculateBrushPhysics_def Let_def)
  have mono: "taper settings = 1 \<and> pressureInput lastPoint cur \<le> pressureInput lastPoint' cur' \<longrightarrow>
           ph_size (calculateBrushPhysics lastPoint cur settings)
             \<le> ph_size (calculateBrushPhysics lastPoint' cur' settings)"
    using big by (simp add: calculateBrushPhysics_def Let_def)
  have top: "taper settings = 1 \<and> pressure cur = 1 \<longrightarrow>
           ph_size (calculateBrushPhysics lastPoint cur settings) = size_s settings * 1.5"
    by (simp add: calculateBrushPhysics_def Let_def pressureInput_def)
  have bottom: "taper settings = 1 \<and> pressure cur = 0 \<longrightarrow>
           ph_size (calculateBrushPhysics lastPoint cur settings) = 0"
    by (simp add: calculateBrushPhysics_def Let_def pressureInput_def)
  from eq pressureInput_range [of lastPoint cur] reported const mono top bottom
  show ?thesis by blast
qed

theorem targetSize_pressure_taper_witness:
  "size_s scenarioSettings > 1
   \<and> taper scenarioSettings = 0
   \<and> ph_size (calculateBrushPhysics (sample 0 0 0.5 0) (sample 100 0 0.5 100) scenarioSettings) = 30
   \<and> size_s (scenarioSettings\<lparr>taper := 1\<rparr>) > 1
   \<and> taper (scenarioSettings\<lparr>taper := 1\<rparr>) = 1
   \<and> pressureInput (sample 0 0 0.5 0) (sample 100 0 0.5 100) = 0.5
   \<and> ph_size (calculateBrushPhysics (sample 0 0 0.5 0) (sample 100 0 0.5 100)
         (scenarioSettings\<lparr>taper := 1\<rparr>)) = 15
   \<and> ph_size (calculateBrushPhysics (sample 0 0 0.5 0) (sample 100 0 1 100)
         (scenarioSettings\<lparr>taper := 1\<rparr>)) = 30
   \<and> ph_size (calculateBrushPhysics (sample 0 0 0.5 0) (sample 100 0 0 100)
         (scenarioSettings\<lparr>taper := 1\<rparr>)) = 0"
proof -
  have big0: "size_s scenarioSettings > 1" and big1: "size_s (scenarioSettings\<lparr>taper := 1\<rparr>) > 1"
    by (simp_all add: scenarioSettings_def)
  have t0: "taper scenarioSettings = 0" and t1: "taper (scenarioSettings\<lparr>taper := 1\<rparr>) = 1"
    by (simp_all add: scenarioSettings_def)
  have p: "0 \<le> pressure (sample 100 0 0.5 100) \<and> pressure (sample 100 0 0.5 100) \<le> 1"
    "pressure (sample 100 0 1 100) = 1" "pressure (sample 100 0 0 100) = 0"
    "pressure (sample 100 0 0.5 100) = 0.5"
    by (simp_all add: sample_def)
  note a = targetSize_pressure_taper [OF big0, of "sample 0 0 0.5 0" "sample 100 0 0.5 100"]
  note b = targetSize_pressure_taper [OF big1, of "sample 0 0 0.5 0" "sample 100 0 0.5 100"]
  note c = targetSize_pressure_taper [OF big1, of "sample 0 0 0.5 0" "sample 100 0 1 100"]
  note d = targetSize_pressure_taper [OF big1, of "sample 0 0 0.5 0" "sample 100 0 0 100"]
  have 1: "ph_size (calculateBrushPhysics (sample 0 0 0.5 0) (sample 100 0 0.5 100) scenarioSettings) = 30"
    using a t0 by (simp add: scenarioSettings_def)
  have 2: "pressureInput (sample 0 0 0.5 0) (sample 100 0 0.5 100) = 0.5"
    using b p by simp
  have 3: "ph_size (calculateBrushPhysics (sample 0 0 0.5 0) (sample 100 0 0.5 100)
         (scenarioSettings\<lparr>taper := 1\<rparr>)) = 15"
    using b [THEN conjunct1] 2 by (simp add: scenarioSettings_def)
  have 4: "ph_size (calculateBrushPhysics (sample 0 0 0.5 0) (sample 100 0 1 100)
         (scenarioSettings\<lparr>taper := 1\<rparr>)) = 30"
    using c t1 p by (simp add: scenarioSettings_def)
  have 5: "ph_size (calculateBrushPhysics (sample 0 0 0.5 0) (sample 100 0 0 100)
         (scenarioSettings\<lparr>taper := 1\<rparr>)) = 0"
    using d t1 p by simp
  from big0 t0 1 big1 t1 2 3 4 5 show ?thesis by (intro conjI)
qed

section \<open>Properties of the history\<close>

lemma saves_snoc: "saves (cs @ [c]) s = saveHistory (drawn c (saves cs s))"
  by (simp add: saves_def)

lemma saveHistory_at_end:
  assumes "drawingCanvas s = Some c" "historyStepIndexRef s = int (length (historyRef s)) - 1"
  shows "saveHistory s =
     (if length (historyRef s) \<ge> MAX_HISTORY
      then s\<lparr>historyRef := tl (historyRef s @ [\<lparr> imageData = pixels c, svgPaths = drawingSvgRef s \<rparr>])\<rparr>
      else s\<lparr>historyRef := historyRef s @ [\<lparr> imageData = pixels c, svgPaths = drawingSvgRef s \<rparr>],
             historyStepIndexRef := historyStepIndexRef s + 1\<rparr>)"
  using assms by (auto simp: saveHistory_def Let_def)

lemma evict_oldest:
  assumes "MAX_HISTORY \<le> length xs"
  shows "tl (drop (length xs - MAX_HISTORY) xs @ [x]) = drop (Suc (length xs) - MAX_HISTORY) (xs @ [x])"
proof -
  let ?k = "length xs - MAX_HISTORY"
  have ne: "drop ?k xs \<noteq> []" using assms by (simp add: MAX_HISTORY_def)
  have "tl (drop ?k xs @ [x]) = tl (drop ?k xs) @ [x]" using ne by simp
  also have "tl (drop ?k xs) = drop (Suc ?k) xs" by (simp add: tl_drop drop_Suc)
  also have "drop (Suc ?k) xs @ [x] = drop (Suc ?k) (xs @ [x])"
    using assms by (simp add: MAX_HISTORY_def)
  also have "Suc ?k = Suc (length xs) - MAX_HISTORY" using assms by (simp add: Suc_diff_le)
  finally show ?thesis .
qed

lemma saves_initial:
  "historyRef (saves cs initialState)
      = drop (Suc (length cs) - MAX_HISTORY) (blankStep # map stepOf cs)
   \<and> historyStepIndexRef (saves cs initialState) = int (min (length cs) (MAX_HISTORY - 1))
   \<and> drawingCanvas (saves cs initialState)
      = Some (freshContext\<lparr>pixels := (if cs = [] then [] else fst (last cs))\<rparr>)
   \<and> drawingSvgRef (saves cs initialState) = (if cs = [] then [] else snd (last cs))"
proof (induction cs rule: rev_induct)
  case Nil
  then show ?case by (simp add: saves_def initialState_def freshContext_def MAX_HISTORY_def)
next
  case (snoc c cs)
  let ?s = "saves cs initialState"
  let ?d = "drawn c ?s"
  let ?all = "blankStep # map stepOf cs"
  from snoc have h: "historyRef ?d = drop (length ?all - MAX_HISTORY) ?all"
    and i: "historyStepIndexRef ?d = int (min (length cs) (MAX_HISTORY - 1))"
    and c: "drawingCanvas ?d = Some (freshContext\<lparr>pixels := fst c\<rparr>)"
    and v: "drawingSvgRef ?d = snd c"
    by (simp_all add: drawn_def)
  have len: "length (historyRef ?d) = min (Suc (length cs)) MAX_HISTORY"
    using h by (simp add: MAX_HISTORY_def)
  have atend: "historyStepIndexRef ?d = int (length (historyRef ?d)) - 1"
    using i len by (simp add: MAX_HISTORY_def min_def)
  have step: "\<lparr> imageData = pixels (freshContext\<lparr>pixels := fst c\<rparr>), svgPaths = snd c \<rparr> = stepOf c"
    by (simp add: stepOf_def)
  show ?case
  proof (cases "MAX_HISTORY \<le> length ?all")
    case True
    then have full: "MAX_HISTORY \<le> length (historyRef ?d)" using len by simp
    have "historyRef (saveHistory ?d) = tl (historyRef ?d @ [stepOf c])"
      using full by (simp add: saveHistory_at_end [OF c atend] v stepOf_def)
    also have "\<dots> = drop (Suc (length ?all) - MAX_HISTORY) (?all @ [stepOf c])"
      unfolding h by (rule evict_oldest [OF True])
    finally have H: "historyRef (saveHistory ?d)
        = drop (Suc (length (cs @ [c])) - MAX_HISTORY) (blankStep # map stepOf (cs @ [c]))"
      by simp
    have I: "historyStepIndexRef (saveHistory ?d) = int (min (length (cs @ [c])) (MAX_HISTORY - 1))"
      using full True i by (simp add: saveHistory_at_end [OF c atend] MAX_HISTORY_def)
    have C: "drawingCanvas (saveHistory ?d) = Some (freshContext\<lparr>pixels := fst c\<rparr>)"
      "drawingSvgRef (saveHistory ?d) = snd c"
      using c v by (simp_all add: saveHistory_at_end [OF c atend])
    from H I C show ?thesis by (simp add: saves_snoc)
  next
    case False
    then have nfull: "\<not> MAX_HISTORY \<le> length (historyRef ?d)" using len by simp
    have "historyRef (saveHistory ?d) = historyRef ?d @ [stepOf c]"
      using nfull by (simp add: saveHistory_at_end [OF c atend] v stepOf_def)
    then have H: "historyRef (saveHistory ?d)
        = drop (Suc (length (cs @ [c])) - MAX_HISTORY) (blankStep # map stepOf (cs @ [c]))"
      using False h by (simp add: MAX_HISTORY_def)
    have I: "historyStepIndexRef (saveHistory ?d) = int (min (length (cs @ [c])) (MAX_HISTORY - 1))"
      using nfull False i by (simp add: saveHistory_at_end [OF c atend] MAX_HISTORY_def)
    have C: "drawingCanvas (saveHistory ?d) = Some (freshContext\<lparr>pixels := fst c\<rparr>)"
      "drawingSvgRef (saveHistory ?d) = snd c"
      using c v by (simp_all add: saveHistory_at_end [OF c atend])
    from H I C show ?thesis by (simp add: saves_snoc)
  qed
qed

lemma performUndo_step:
  assumes "drawingCanvas s = Some c" "0 < historyStepIndexRef s"
    "historyStepIndexRef s \<le> int (length (historyRef s))"
  shows "performUndo s =
     s\<lparr>historyStepIndexRef := historyStepIndexRef s - 1,
       drawingCanvas := Some (c\<lparr>pixels := imageData (historyRef s ! nat (historyStepIndexRef s - 1))\<rparr>),
       drawingSvgRef := svgPaths (historyRef s ! nat (historyStepIndexRef s - 1))\<rparr>"
  using assms by (simp add: performUndo_def restoreStep_def elemAt_def)

lemma performUndo_floor: "historyStepIndexRef s \<le> 0 \<Longrightarrow> performUndo s = s"
  by (simp add: performUndo_def)

lemma undos_Suc: "undos (Suc k) s = performUndo (undos k s)"
  by (simp add: undos_def)

lemma undos_within:
  assumes "drawingCanvas s = Some c" "historyStepIndexRef s = int i" "i < length (historyRef s)"
    "k \<le> i" "0 < k"
  shows "undos k s =
     s\<lparr>historyStepIndexRef := int (i - k),
       drawingCanvas := Some (c\<lparr>pixels := imageData (historyRef s ! (i - k))\<rparr>),
       drawingSvgRef := svgPaths (historyRef s ! (i - k))\<rparr>"
  using assms(4,5)
proof (induction k)
  case 0
  then show ?case by simp
next
  case (Suc k)
  show ?case
  proof (cases "k = 0")
    case True
    have "undos (Suc k) s = performUndo s" using True by (simp add: undos_def)
    then show ?thesis
      using Suc.prems assms(1,2,3) True
      by (simp add: performUndo_step [OF assms(1)] nat_diff_distrib')
  next
    case False
    then have IH: "undos k s =
       s\<lparr>historyStepIndexRef := int (i - k),
         drawingCanvas := Some (c\<lparr>pixels := imageData (historyRef s ! (i - k))\<rparr>),
         drawingSvgRef := svgPaths (historyRef s ! (i - k))\<rparr>"
      using Suc by simp
    let ?u = "undos k s"
    have 1: "drawingCanvas ?u = Some (c\<lparr>pixels := imageData (historyRef s ! (i - k))\<rparr>)"
      and 2: "historyStepIndexRef ?u = int (i - k)" and 3: "historyRef ?u = historyRef s"
      by (simp_all add: IH)
    have pos: "0 < historyStepIndexRef ?u" "historyStepIndexRef ?u \<le> int (length (historyRef ?u))"
      using 2 3 Suc.prems assms(3) by simp_all
    have idx: "nat (historyStepIndexRef ?u - 1) = i - Suc k"
      using 2 Suc.prems by simp
    show ?thesis
      unfolding undos_Suc performUndo_step [OF 1 pos] idx 3
      using Suc.prems by (simp add: IH)
  qed
qed

lemma undos_floor: "historyStepIndexRef s \<le> 0 \<Longrightarrow> undos k s = s"
  by (induction k) (simp_all add: undos_def performUndo_floor)

lemma undos_add: "undos (j + k) s = undos j (undos k s)"
  by (simp add: undos_def funpow_add)

lemma hist_inv_initial: "hist_inv initialState"
  by (simp add: hist_inv_def initialState_def MAX_HISTORY_def)

lemma hist_inv_drawn: "hist_inv s \<Longrightarrow> hist_inv (drawn c s)"
  by (auto simp: hist_inv_def drawn_def)

lemma hist_inv_saveHistory: "hist_inv s \<Longrightarrow> hist_inv (saveHistory s)"
  by (auto simp: hist_inv_def saveHistory_def Let_def slice0_def MAX_HISTORY_def)

lemma hist_inv_restoreStep: "hist_inv s \<Longrightarrow> hist_inv (restoreStep s)"
  by (auto simp: hist_inv_def restoreStep_def split: option.splits)

lemma hist_inv_performUndo: "hist_inv s \<Longrightarrow> hist_inv (performUndo s)"
proof -
  assume a: "hist_inv s"
  show ?thesis
  proof (cases "historyStepIndexRef s > 0")
    case True
    with a have "hist_inv (s\<lparr>historyStepIndexRef := historyStepIndexRef s - 1\<rparr>)"
      by (simp add: hist_inv_def)
    then show ?thesis using True by (simp add: performUndo_def hist_inv_restoreStep)
  next
    case False
    with a show ?thesis by (simp add: performUndo_def)
  qed
qed

lemma hist_inv_performRedo: "hist_inv s \<Longrightarrow> hist_inv (performRedo s)"
proof -
  assume a: "hist_inv s"
  show ?thesis
  proof (cases "historyStepIndexRef s < int (length (historyRef s)) - 1")
    case True
    with a have "hist_inv (s\<lparr>historyStepIndexRef := historyStepIndexRef s + 1\<rparr>)"
      by (simp add: hist_inv_def)
    then show ?thesis using True by (simp add: performRedo_def hist_inv_restoreStep)
  next
    case False
    with a show ?thesis by (simp add: performRedo_def)
  qed
qed

lemma hist_inv_applyAction: "hist_inv s \<Longrightarrow> hist_inv (applyAction s a)"
  by (cases a) (simp_all add: hist_inv_drawn hist_inv_saveHistory hist_inv_performUndo hist_inv_performRedo)

lemma hist_inv_runActions: "hist_inv s \<Longrightarrow> hist_inv (runActions acts s)"
  unfolding runActions_def
  by (induction acts arbitrary: s) (simp_all add: hist_inv_applyAction)

lemma saved_canvas: "\<exists>c. drawingCanvas (saves cs initialState) = Some c"
  using saves_initial [of cs] by simp

lemma round_trip_short:
  assumes "length cs < MAX_HISTORY"
  shows "drawingLayer (undos (length cs) (saves cs initialState)) = Some ([], [])"
proof (cases "cs = []")
  case True
  then show ?thesis
    by (simp add: undos_def saves_def drawingLayer_def initialState_def freshContext_def)
next
  case False
  let ?s = "saves cs initialState"
  obtain c where c: "drawingCanvas ?s = Some c" using saved_canvas by blast
  have h: "historyRef ?s = blankStep # map stepOf cs"
    using saves_initial [of cs] assms by (simp add: MAX_HISTORY_def)
  have i: "historyStepIndexRef ?s = int (length cs)"
    using saves_initial [of cs] assms by (simp add: MAX_HISTORY_def)
  have "undos (length cs) ?s =
     ?s\<lparr>historyStepIndexRef := int (length cs - length cs),
       drawingCanvas := Some (c\<lparr>pixels := imageData (historyRef ?s ! (length cs - length cs))\<rparr>),
       drawingSvgRef := svgPaths (historyRef ?s ! (length cs - length cs))\<rparr>"
    using False by (intro undos_within [OF c i]) (simp_all add: h)
  then show ?thesis by (simp add: drawingLayer_def h blankStep_def)
qed

lemma saves_full:
  assumes "MAX_HISTORY \<le> length cs"
  shows "historyRef (saves cs initialState) = map stepOf (drop (length cs - MAX_HISTORY) cs)"
    and "historyStepIndexRef (saves cs initialState) = int MAX_HISTORY - 1"
proof -
  have "Suc (length cs) - MAX_HISTORY = Suc (length cs - MAX_HISTORY)"
    using assms by (simp add: Suc_diff_le)
  then show "historyRef (saves cs initialState) = map stepOf (drop (length cs - MAX_HISTORY) cs)"
    using saves_initial [of cs] by (simp add: drop_map)
  show "historyStepIndexRef (saves cs initialState) = int MAX_HISTORY - 1"
    using saves_initial [of cs] assms by (simp add: MAX_HISTORY_def)
qed

lemma undos_full:
  assumes "MAX_HISTORY \<le> length cs" "0 < k"
  shows "drawingLayer (undos k (saves cs initialState))
           = Some (cs ! (length cs - 1 - min k (MAX_HISTORY - 1)))
       \<and> historyStepIndexRef (undos k (saves cs initialState)) = int (MAX_HISTORY - 1 - k)
       \<and> historyRef (undos k (saves cs initialState)) = historyRef (saves cs initialState)"
proof -
  let ?s = "saves cs initialState"
  let ?m = "min k (MAX_HISTORY - 1)"
  obtain c where c: "drawingCanvas ?s = Some c" using saved_canvas by blast
  note h = saves_full(1) [OF assms(1)]
  have i: "historyStepIndexRef ?s = int (MAX_HISTORY - 1)"
    using saves_full(2) [OF assms(1)] by (simp add: MAX_HISTORY_def)
  have len: "MAX_HISTORY - 1 < length (historyRef ?s)"
    using assms(1) by (simp add: h MAX_HISTORY_def)
  have m: "?m \<le> MAX_HISTORY - 1" "0 < ?m" using assms(2) by (simp_all add: MAX_HISTORY_def)
  have u: "undos ?m ?s =
     ?s\<lparr>historyStepIndexRef := int (MAX_HISTORY - 1 - ?m),
       drawingCanvas := Some (c\<lparr>pixels := imageData (historyRef ?s ! (MAX_HISTORY - 1 - ?m))\<rparr>),
       drawingSvgRef := svgPaths (historyRef ?s ! (MAX_HISTORY - 1 - ?m))\<rparr>"
    by (rule undos_within [OF c i len m])
  have rest: "undos k ?s = undos ?m ?s"
  proof (cases "k \<le> MAX_HISTORY - 1")
    case True
    then show ?thesis by (simp add: min_def)
  next
    case False
    then have m19: "?m = MAX_HISTORY - 1" by simp
    have "undos k ?s = undos (k - ?m) (undos ?m ?s)"
      using False undos_add [of "k - ?m" ?m ?s] by (simp add: m19)
    also have "\<dots> = undos ?m ?s"
    proof (rule undos_floor)
      have "historyStepIndexRef (undos ?m ?s) = int (MAX_HISTORY - 1 - ?m)"
        unfolding u by simp
      then show "historyStepIndexRef (undos ?m ?s) \<le> 0" using m19 by simp
    qed
    finally show ?thesis .
  qed
  have nth: "historyRef ?s ! (MAX_HISTORY - 1 - ?m) = stepOf (cs ! (length cs - 1 - ?m))"
    using assms(1) m by (simp add: h MAX_HISTORY_def) 
  show ?thesis
    unfolding rest u using nth by (auto simp: drawingLayer_def stepOf_def min_def)
qed

text \<open>
  Claim C3, as amended.  From the initial state, \<open>N\<close> saves (each after any drawing)
  followed by \<open>N\<close> undos give back the blank drawing layer of the initial state, raster and
  vector log, for every \<open>N \<le> 19\<close>.  For \<open>N = 20\<close> the blank step has been evicted by the
  twentieth save, and the undos stop at the content of the first save.
\<close>

theorem history_round_trip:
  "(length cs \<le> 19 \<longrightarrow>
      drawingLayer (undos (length cs) (saves cs initialState)) = drawingLayer initialState
      \<and> drawingLayer initialState = Some ([], []))
   \<and> (length cs = 20 \<longrightarrow>
      drawingLayer (undos (length cs) (saves cs initialState)) = Some (cs ! 0))"
proof (intro conjI impI)
  show "drawingLayer initialState = Some ([], [])"
    by (simp add: drawingLayer_def initialState_def freshContext_def)
  then show "drawingLayer (undos (length cs) (saves cs initialState)) = drawingLayer initialState"
    if "length cs \<le> 19"
    using that round_trip_short [of cs] by (simp add: MAX_HISTORY_def)
  show "drawingLayer (undos (length cs) (saves cs initialState)) = Some (cs ! 0)"
    if "length cs = 20"
    using that undos_full [of cs "length cs"] by (simp add: MAX_HISTORY_def)
qed

theorem history_round_trip_witness:
  "length [([inkStamp], [inkEntry]), ([], [])] \<le> 19
   \<and> drawingLayer (undos (length [([inkStamp], [inkEntry]), ([], [])])
         (saves [([inkStamp], [inkEntry]), ([], [])] initialState)) = Some ([], [])
   \<and> length (replicate 20 ([inkStamp], [inkEntry])) = 20
   \<and> drawingLayer (undos (length (replicate 20 ([inkStamp], [inkEntry])))
         (saves (replicate 20 ([inkStamp], [inkEntry])) initialState))
       = Some ([inkStamp], [inkEntry])"
proof -
  have a: "length [([inkStamp], [inkEntry]), ([], [])] \<le> 19" by simp
  have b: "length (replicate 20 ([inkStamp], [inkEntry])) = 20" by simp
  have c: "replicate 20 ([inkStamp], [inkEntry]) ! 0 = ([inkStamp], [inkEntry])" by simp
  from history_round_trip [of "[([inkStamp], [inkEntry]), ([], [])]"] a
  have 1: "drawingLayer (undos (length [([inkStamp], [inkEntry]), ([], [])])
         (saves [([inkStamp], [inkEntry]), ([], [])] initialState)) = Some ([], [])"
    by metis
  from history_round_trip [of "replicate 20 ([inkStamp], [inkEntry])"] b c
  have 2: "drawingLayer (undos (length (replicate 20 ([inkStamp], [inkEntry])))
         (saves (replicate 20 ([inkStamp], [inkEntry])) initialState))
       = Some ([inkStamp], [inkEntry])"
    by metis
  from a 1 b 2 show ?thesis by (intro conjI)
qed


text \<open>
  Claim C3 as stated (\<open>N \<le> 20\<close>) fails at \<open>N = 20\<close>: twenty saves of a layer holding one
  stamp, then twenty undos, do not give back the blank layer.
\<close>

theorem history_round_trip_counterexample:
  "length (replicate 20 ([inkStamp], [inkEntry])) \<le> 20
   \<and> drawingLayer (undos (length (replicate 20 ([inkStamp], [inkEntry])))
        (saves (replicate 20 ([inkStamp], [inkEntry])) initialState))
       \<noteq> drawingLayer initialState"
proof -
  have b: "MAX_HISTORY \<le> length (replicate 20 ([inkStamp], [inkEntry]))"
    by (simp add: MAX_HISTORY_def)
  have c: "replicate 20 ([inkStamp], [inkEntry]) ! 0 = ([inkStamp], [inkEntry])" by simp
  have "drawingLayer (undos (length (replicate 20 ([inkStamp], [inkEntry])))
        (saves (replicate 20 ([inkStamp], [inkEntry])) initialState))
      = Some (replicate 20 ([inkStamp], [inkEntry]) ! 0)"
    using undos_full [OF b, of "length (replicate 20 ([inkStamp], [inkEntry]))"]
    by (simp add: MAX_HISTORY_def)
  moreover have "drawingLayer initialState = Some ([], [])"
    by (simp add: drawingLayer_def initialState_def freshContext_def)
  ultimately show ?thesis unfolding c by simp
qed


text \<open>
  Claim C6.  From the initial state, after 25 saves the history holds exactly 20 steps (the
  last 20 saves) and the index is 19, the last of them.  Each of the next 19 undos moves
  the index down by one and restores that step; from the 19th on, at index 0, the oldest
  retained step, undo changes nothing.  Whatever the sequence of saves, undos and redos,
  the index stays within the retained steps.
\<close>

theorem bounded_history:
  "length cs = 25 \<Longrightarrow>
     length (historyRef (saves cs initialState)) = 20
   \<and> historyStepIndexRef (saves cs initialState) = 19
   \<and> historyRef (saves cs initialState) = map stepOf (drop 5 cs)
   \<and> (\<forall>k. 0 < k \<and> k \<le> 19 \<longrightarrow>
         historyStepIndexRef (undos k (saves cs initialState)) = 19 - int k
         \<and> drawingLayer (undos k (saves cs initialState)) = Some (cs ! (24 - k)))
   \<and> (\<forall>k. 19 \<le> k \<longrightarrow> undos k (saves cs initialState) = undos 19 (saves cs initialState))
   \<and> hist_inv (runActions acts initialState)"
proof -
  assume n: "length cs = 25"
  let ?s = "saves cs initialState"
  have full: "MAX_HISTORY \<le> length cs" using n by (simp add: MAX_HISTORY_def)
  have h: "historyRef ?s = map stepOf (drop 5 cs)"
    using saves_full(1) [OF full] n by (simp add: MAX_HISTORY_def)
  have i: "historyStepIndexRef ?s = 19"
    using saves_full(2) [OF full] by (simp add: MAX_HISTORY_def)
  have len: "length (historyRef ?s) = 20" using h n by simp
  have eff: "\<forall>k. 0 < k \<and> k \<le> 19 \<longrightarrow>
         historyStepIndexRef (undos k ?s) = 19 - int k
         \<and> drawingLayer (undos k ?s) = Some (cs ! (24 - k))"
  proof (intro allI impI)
    fix k :: nat assume k: "0 < k \<and> k \<le> 19"
    then show "historyStepIndexRef (undos k ?s) = 19 - int k
         \<and> drawingLayer (undos k ?s) = Some (cs ! (24 - k))"
      using undos_full [OF full, of k] n by (simp add: MAX_HISTORY_def min_def)
  qed
  have floor: "\<forall>k. 19 \<le> k \<longrightarrow> undos k ?s = undos 19 ?s"
  proof (intro allI impI)
    fix k :: nat assume k: "19 \<le> k"
    have z: "historyStepIndexRef (undos 19 ?s) \<le> 0"
      using undos_full [OF full, of 19] by (simp add: MAX_HISTORY_def)
    have "undos k ?s = undos (k - 19) (undos 19 ?s)"
      using k undos_add [of "k - 19" 19 ?s] by simp
    then show "undos k ?s = undos 19 ?s" using undos_floor [OF z] by simp
  qed
  have inv: "hist_inv (runActions acts initialState)"
    by (rule hist_inv_runActions [OF hist_inv_initial])
  from len i h eff floor inv show ?thesis by blast
qed

theorem bounded_history_witness:
  "length (replicate 25 ([inkStamp], [inkEntry])) = 25
   \<and> length (historyRef (saves (replicate 25 ([inkStamp], [inkEntry])) initialState)) = 20
   \<and> historyStepIndexRef (saves (replicate 25 ([inkStamp], [inkEntry])) initialState) = 19
   \<and> historyStepIndexRef (undos 19 (saves (replicate 25 ([inkStamp], [inkEntry])) initialState)) = 0
   \<and> undos 20 (saves (replicate 25 ([inkStamp], [inkEntry])) initialState)
       = undos 19 (saves (replicate 25 ([inkStamp], [inkEntry])) initialState)
   \<and> hist_inv (runActions [StrokeEnd ([inkStamp], [inkEntry]), Undo, Redo] initialState)"
proof -
  have n: "length (replicate 25 ([inkStamp], [inkEntry])) = 25" by simp
  note t = bounded_history [OF n, of "[StrokeEnd ([inkStamp], [inkEntry]), Undo, Redo]"]
  note 1 = t [THEN conjunct1]
  note 2 = t [THEN conjunct2, THEN conjunct1]
  note eff = t [THEN conjunct2, THEN conjunct2, THEN conjunct2, THEN conjunct1, rule_format, of 19]
  note floor = t [THEN conjunct2, THEN conjunct2, THEN conjunct2, THEN conjunct2, THEN conjunct1,
      rule_format, of 20]
  note 5 = t [THEN conjunct2, THEN conjunct2, THEN conjunct2, THEN conjunct2, THEN conjunct2]
  have 3: "historyStepIndexRef (undos 19 (saves (replicate 25 ([inkStamp], [inkEntry])) initialState)) = 0"
    using eff by simp
  have 4: "undos 20 (saves (replicate 25 ([inkStamp], [inkEntry])) initialState)
       = undos 19 (saves (replicate 25 ([inkStamp], [inkEntry])) initialState)"
    using floor by simp
  from n 1 2 3 4 5 show ?thesis by (intro conjI)
qed

section \<open>Properties of the stroke engine: plain strokes and the scenario\<close>

lemma strokeStep_plain:
  assumes noskip: "size_s settings \<le> 1 \<or> isEraser settings
             \<or> \<not> rnd (randomCalls l) < (velocity * roughness settings) / 5"
    and nosplat: "size_s settings \<le> 1 \<or> isEraser settings \<or> roughness settings \<le> 0.2"
  shows "strokeStep rnd settings lastPoint currentPoint targetSize velocity t l =
     (if targetSize / 2 < 0 \<or> (targetSize / 2) * roundness settings < 0
      then Throws (l\<lparr>ctx := (ctx l)\<lparr>globalAlpha := 1, fillStyle := color settings\<rparr>,
                     randomCalls := Suc (randomCalls l)\<rparr>)
      else Returns
        \<lparr> ctx = (ctx l)\<lparr>globalAlpha := 1, fillStyle := color settings,
                 pixels := pixels (ctx l) @ [stampOp settings lastPoint currentPoint targetSize t (ctx l)]\<rparr>,
          svgRef = svgRef l @ (if isEraser settings then []
                     else [stampEntry settings lastPoint currentPoint targetSize t]),
          randomCalls = Suc (randomCalls l) \<rparr>)"
  using assms
  by (auto simp: strokeStep_def Let_def drawAndRecordEllipse_def andThen_def setGlobalAlpha_def
      fillEllipse_def stampOp_def stampEntry_def)

lemma stepParam_finite: "stepParam i (enat n) = real i / real n"
  by (simp add: stepParam_def)

lemma plainStroke_done: "plainStroke settings lastPoint currentPoint targetSize n n l = l"
  by (simp add: plainStroke_def)

lemma strokeLoop_plain:
  assumes noskip: "size_s settings \<le> 1 \<or> isEraser settings
             \<or> (\<forall>k. \<not> rnd k < (velocity * roughness settings) / 5)"
    and nosplat: "size_s settings \<le> 1 \<or> isEraser settings \<or> roughness settings \<le> 0.2"
    and radii: "\<not> (targetSize / 2 < 0 \<or> (targetSize / 2) * roundness settings < 0)"
  shows "i \<le> n \<Longrightarrow>
     strokeLoop rnd settings lastPoint currentPoint targetSize velocity (enat n) i l
       = Some (Returns (plainStroke settings lastPoint currentPoint targetSize n i l))"
proof (induction "n - i" arbitrary: i l)
  case 0
  then have "i = n" by simp
  then show ?case
    by (subst strokeLoop.simps) (simp add: plainStroke_done)
next
  case (Suc m)
  then have lt: "i < n" and m: "m = n - Suc i" and le: "Suc i \<le> n" by simp_all
  have ns: "size_s settings \<le> 1 \<or> isEraser settings
             \<or> \<not> rnd (randomCalls l) < (velocity * roughness settings) / 5"
    using noskip by blast
  let ?l' = "\<lparr> ctx = (ctx l)\<lparr>globalAlpha := 1, fillStyle := color settings,
                 pixels := pixels (ctx l) @
                   [stampOp settings lastPoint currentPoint targetSize (real i / real n) (ctx l)]\<rparr>,
          svgRef = svgRef l @ (if isEraser settings then []
                     else [stampEntry settings lastPoint currentPoint targetSize (real i / real n)]),
          randomCalls = Suc (randomCalls l) \<rparr>"
  have step: "strokeStep rnd settings lastPoint currentPoint targetSize velocity
                (stepParam i (enat n)) l = Returns ?l'"
    using radii strokeStep_plain [where rnd = rnd and l = l and velocity = velocity
        and settings = settings, OF ns nosplat]
    by (simp add: stepParam_finite)
  have "strokeLoop rnd settings lastPoint currentPoint targetSize velocity (enat n) i l
      = strokeLoop rnd settings lastPoint currentPoint targetSize velocity (enat n) (Suc i) ?l'"
    using lt by (subst strokeLoop.simps) (simp add: step)
  also have "\<dots> = Some (Returns (plainStroke settings lastPoint currentPoint targetSize n (Suc i) ?l'))"
    by (rule Suc.hyps(1) [OF m le])
  also have "plainStroke settings lastPoint currentPoint targetSize n (Suc i) ?l'
      = plainStroke settings lastPoint currentPoint targetSize n i l"
    using lt by (simp add: plainStroke_def upt_conv_Cons stampOp_def)
  finally show ?case .
qed

lemma strokeLoop_throws:
  assumes noskip: "size_s settings \<le> 1 \<or> isEraser settings
             \<or> (\<forall>k. \<not> rnd k < (velocity * roughness settings) / 5)"
    and nosplat: "size_s settings \<le> 1 \<or> isEraser settings \<or> roughness settings \<le> 0.2"
    and radii: "targetSize / 2 < 0 \<or> (targetSize / 2) * roundness settings < 0"
    and lt: "enat i < steps"
  shows "strokeLoop rnd settings lastPoint currentPoint targetSize velocity steps i l
       = Some (Throws (l\<lparr>ctx := (ctx l)\<lparr>globalAlpha := 1, fillStyle := color settings\<rparr>,
                          randomCalls := Suc (randomCalls l)\<rparr>))"
proof -
  have ns: "size_s settings \<le> 1 \<or> isEraser settings
             \<or> \<not> rnd (randomCalls l) < (velocity * roughness settings) / 5"
    using noskip by blast
  show ?thesis
    using radii lt strokeStep_plain [where rnd = rnd and l = l and velocity = velocity
        and settings = settings, OF ns nosplat]
    by (subst strokeLoop.simps) simp
qed

lemma strokeLoop_finite:
  "i \<le> n \<Longrightarrow>
     \<exists>r. strokeLoop rnd settings lastPoint currentPoint targetSize velocity (enat n) i l = Some r"
proof (induction "n - i" arbitrary: i l)
  case 0
  then show ?case by (subst strokeLoop.simps) simp
next
  case (Suc m)
  then have lt: "i < n" and m: "m = n - Suc i" and le: "Suc i \<le> n" by simp_all
  show ?case
  proof (cases "strokeStep rnd settings lastPoint currentPoint targetSize velocity
                  (stepParam i (enat n)) l")
    case (Returns l')
    from Suc.hyps(1) [OF m le, of l'] obtain r where
      "strokeLoop rnd settings lastPoint currentPoint targetSize velocity (enat n) (Suc i) l' = Some r"
      by blast
    then show ?thesis using lt Returns by (subst strokeLoop.simps) simp
  next
    case (Throws l')
    then show ?thesis using lt by (subst strokeLoop.simps) simp
  qed
qed

lemma strokeStep_eraser_svg:
  assumes "isEraser settings"
  shows "svgRef (outcomeState (strokeStep rnd settings lastPoint currentPoint targetSize velocity t l))
           = svgRef l"
proof -
  have ns: "size_s settings \<le> 1 \<or> isEraser settings
             \<or> \<not> rnd (randomCalls l) < (velocity * roughness settings) / 5"
    and nsp: "size_s settings \<le> 1 \<or> isEraser settings \<or> roughness settings \<le> 0.2"
    using assms by simp_all
  show ?thesis
    using assms strokeStep_plain [where rnd = rnd and l = l and velocity = velocity
        and settings = settings, OF ns nsp]
    by (simp add: outcomeState_def)
qed

lemma strokeLoop_eraser_svg:
  assumes run: "strokeLoop rnd settings lastPoint currentPoint targetSize velocity steps i l = Some r"
  shows "isEraser settings \<longrightarrow> svgRef (outcomeState r) = svgRef l"
proof (rule strokeLoop.raw_induct
    [where P = "\<lambda>rnd settings lastPoint currentPoint targetSize velocity steps i l r.
                  isEraser settings \<longrightarrow> svgRef (outcomeState r) = svgRef l", OF _ run])
  fix loop :: "(nat \<Rightarrow> real) \<Rightarrow> BrushSettings \<Rightarrow> Point \<Rightarrow> Point \<Rightarrow> real \<Rightarrow> real \<Rightarrow> enat \<Rightarrow> nat \<Rightarrow> Layer
     \<Rightarrow> Layer outcome option"
  fix rnd settings lastPoint currentPoint targetSize velocity steps i l r
  assume IH: "\<And>rnd settings lastPoint currentPoint targetSize velocity steps i l r.
      loop rnd settings lastPoint currentPoint targetSize velocity steps i l = Some r \<Longrightarrow>
      isEraser settings \<longrightarrow> svgRef (outcomeState r) = svgRef l"
  assume body: "(if enat i < steps
      then case strokeStep rnd settings lastPoint currentPoint targetSize velocity (stepParam i steps) l of
           Returns l' \<Rightarrow> loop rnd settings lastPoint currentPoint targetSize velocity steps (Suc i) l'
           | Throws l' \<Rightarrow> Some (Throws l')
      else Some (Returns l)) = Some r"
  show "isEraser settings \<longrightarrow> svgRef (outcomeState r) = svgRef l"
  proof
    assume e: "isEraser settings"
    note sv = strokeStep_eraser_svg [OF e, of rnd lastPoint currentPoint targetSize velocity
        "stepParam i steps" l]
    show "svgRef (outcomeState r) = svgRef l"
    proof (cases "enat i < steps")
      case False
      with body have "r = Returns l" by simp
      then show ?thesis by (simp add: outcomeState_def)
    next
      case True
      show ?thesis
      proof (cases "strokeStep rnd settings lastPoint currentPoint targetSize velocity
                  (stepParam i steps) l")
        case (Returns l')
        with body True have "loop rnd settings lastPoint currentPoint targetSize velocity steps (Suc i) l' = Some r"
          by simp
        from IH [OF this] e have "svgRef (outcomeState r) = svgRef l'" by simp
        with sv Returns show ?thesis by (simp add: outcomeState_def)
      next
        case (Throws l')
        with body True have "r = Throws l'" by simp
        with sv Throws show ?thesis by (simp add: outcomeState_def)
      qed
    qed
  qed
qed

lemma outcomeState_simps [simp]:
  "outcomeState (Returns a) = a" "outcomeState (Throws a) = a"
  by (simp_all add: outcomeState_def)

lemma andThen_simps:
  "andThen (Returns a) f = f a" "andThen (Throws a) f = Throws a"
  by (simp_all add: andThen_def)

lemma drawAndRecordEllipse_returns:
  "0 \<le> rx \<Longrightarrow> 0 \<le> ry \<Longrightarrow>
     \<exists>l'. drawAndRecordEllipse l x y rx ry rot col opacity eraser = Returns l'"
  by (simp add: drawAndRecordEllipse_def Let_def)

lemma splatterStamp_returns:
  "0 \<le> radiusX \<Longrightarrow> 0 \<le> radiusY \<Longrightarrow>
     \<exists>l'. splatterStamp rnd settings x y radiusX radiusY a targetSize opacity l = Returns l'"
  unfolding splatterStamp_def Let_def
  by (rule drawAndRecordEllipse_returns) simp_all

lemma strokeStep_returns:
  assumes "0 \<le> targetSize / 2" "0 \<le> (targetSize / 2) * roundness settings"
  shows "\<exists>l'. strokeStep rnd settings lastPoint currentPoint targetSize velocity t l = Returns l'"
proof -
  let ?rx = "targetSize / 2" and ?ry = "(targetSize / 2) * roundness settings"
  have sp: "\<And>x y a op l. \<exists>l'. splatterStamp rnd settings x y ?rx ?ry a targetSize op l = Returns l'"
    using assms by (intro splatterStamp_returns)
  have three: "\<And>x y a op l. \<exists>l'.
      andThen (andThen (splatterStamp rnd settings x y ?rx ?ry a targetSize op l)
                 (splatterStamp rnd settings x y ?rx ?ry a targetSize op))
        (splatterStamp rnd settings x y ?rx ?ry a targetSize op) = Returns l'"
  proof -
    fix x y a op l
    obtain l1 where 1: "splatterStamp rnd settings x y ?rx ?ry a targetSize op l = Returns l1"
      using sp by blast
    obtain l2 where 2: "splatterStamp rnd settings x y ?rx ?ry a targetSize op l1 = Returns l2"
      using sp by blast
    obtain l3 where 3: "splatterStamp rnd settings x y ?rx ?ry a targetSize op l2 = Returns l3"
      using sp by blast
    show "\<exists>l'. andThen (andThen (splatterStamp rnd settings x y ?rx ?ry a targetSize op l)
                 (splatterStamp rnd settings x y ?rx ?ry a targetSize op))
        (splatterStamp rnd settings x y ?rx ?ry a targetSize op) = Returns l'"
      by (simp only: 1 2 3 andThen_simps) blast
  qed
  have main: "\<And>l x y a c op e. \<exists>l'. drawAndRecordEllipse l x y ?rx ?ry a c op e = Returns l'"
    using assms by (intro drawAndRecordEllipse_returns)
  show ?thesis
    unfolding strokeStep_def Let_def
  proof (split if_split, intro conjI impI)
    show "\<exists>l'. Returns (l\<lparr>randomCalls := randomCalls l + 1\<rparr>) = Returns l'" by blast
  next
    let ?x = "x_p lastPoint + (x_p currentPoint - x_p lastPoint) * t"
    let ?y = "y_p lastPoint + (y_p currentPoint - y_p lastPoint) * t"
    let ?a = "angle settings * (pi / 180)"
    let ?op = "if size_s settings \<le> 1 then 1.0 else (1.0::real)"
    obtain l2 where m: "drawAndRecordEllipse (l\<lparr>randomCalls := randomCalls l + 1\<rparr>) ?x ?y ?rx ?ry ?a
        (color settings) ?op (isEraser settings) = Returns l2"
      using main by blast
    obtain l3 where s3: "andThen (andThen (splatterStamp rnd settings ?x ?y ?rx ?ry ?a targetSize ?op l2)
                 (splatterStamp rnd settings ?x ?y ?rx ?ry ?a targetSize ?op))
        (splatterStamp rnd settings ?x ?y ?rx ?ry ?a targetSize ?op) = Returns l3"
      using three by blast
    show "\<exists>l'. andThen
          (drawAndRecordEllipse (l\<lparr>randomCalls := randomCalls l + 1\<rparr>) ?x ?y ?rx ?ry ?a
             (color settings) ?op (isEraser settings))
          (\<lambda>l2. if 1 < size_s settings \<and> (?op < 0.9 \<or> 0.2 < roughness settings) \<and> \<not> isEraser settings
                then andThen (andThen (splatterStamp rnd settings ?x ?y ?rx ?ry ?a targetSize ?op l2)
                        (splatterStamp rnd settings ?x ?y ?rx ?ry ?a targetSize ?op))
                       (splatterStamp rnd settings ?x ?y ?rx ?ry ?a targetSize ?op)
                else Returns l2) = Returns l'"
      unfolding m andThen_simps s3 by simp
  qed
qed

lemma strokeLoop_returns:
  assumes "0 \<le> targetSize / 2" "0 \<le> (targetSize / 2) * roundness settings"
  shows "i \<le> n \<Longrightarrow>
     \<exists>l'. strokeLoop rnd settings lastPoint currentPoint targetSize velocity (enat n) i l
            = Some (Returns l')"
proof (induction "n - i" arbitrary: i l)
  case 0
  then show ?case by (subst strokeLoop.simps) simp
next
  case (Suc m)
  then have lt: "i < n" and m: "m = n - Suc i" and le: "Suc i \<le> n" by simp_all
  obtain l1 where st: "strokeStep rnd settings lastPoint currentPoint targetSize velocity
                  (stepParam i (enat n)) l = Returns l1"
    using strokeStep_returns [OF assms] by blast
  from Suc.hyps(1) [OF m le, of l1] show ?case
    using lt st by (subst strokeLoop.simps) simp
qed

lemma drawStroke_unfold:
  assumes "drawingCanvas s = Some c" "lastPointRef s = Some lastPoint"
    "strokeGeometry settings lastPoint cur = (targetSize, velocity, distance)"
  shows "drawStroke rnd settings cur s =
     (case strokeLoop rnd settings lastPoint cur targetSize velocity
             (strokeSteps distance (strokeStepSize settings targetSize)) 0
             (strokeStart settings targetSize c s) of
        None \<Rightarrow> None
      | Some (Throws l) \<Rightarrow>
          Some (Throws (s\<lparr>drawingCanvas := Some (ctx l), drawingSvgRef := svgRef l,
                           randomCount := randomCalls l\<rparr>))
      | Some (Returns l) \<Rightarrow> Some (Returns (strokeEnd s l)))"
  using assms
  by (simp add: drawStroke_def strokeStart_def strokeEnd_def split: option.splits outcome.splits)

lemma drawStroke_no_canvas: "drawingCanvas s = None \<Longrightarrow> drawStroke rnd settings cur s = Some (Returns s)"
  by (simp add: drawStroke_def)

lemma drawStroke_no_lastPoint: "lastPointRef s = None \<Longrightarrow> drawStroke rnd settings cur s = Some (Returns s)"
  by (simp add: drawStroke_def split: option.splits)

lemma ctxClean_strokeEnd: "ctxClean (strokeEnd s l)"
  by (simp add: ctxClean_def strokeEnd_def setShadowBlur_def)

lemma drawStroke_clean:
  assumes "drawStroke rnd settings cur s = Some (Returns s')" "lastPointRef s \<noteq> None \<or> ctxClean s"
  shows "ctxClean s'"
proof (cases "drawingCanvas s")
  case None
  with assms(1) have "s' = s" by (simp add: drawStroke_no_canvas)
  with None show ?thesis by (simp add: ctxClean_def)
next
  case (Some c)
  show ?thesis
  proof (cases "lastPointRef s")
    case None
    with assms(1) have "s' = s" by (simp add: drawStroke_no_lastPoint)
    with None assms(2) show ?thesis by simp
  next
    case (Some lastPoint)
    obtain ts v d where g: "strokeGeometry settings lastPoint cur = (ts, v, d)"
      by (cases "strokeGeometry settings lastPoint cur") auto
    from assms(1) obtain l where "s' = strokeEnd s l"
      unfolding drawStroke_unfold [OF \<open>drawingCanvas s = Some c\<close> Some g]
      by (auto split: option.splits outcome.splits)
    then show ?thesis by (simp add: ctxClean_strokeEnd)
  qed
qed

lemma drawStroke_returns:
  assumes "strokeWellFormed settings cur s"
  shows "\<exists>s'. drawStroke rnd settings cur s = Some (Returns s')"
proof (cases "drawingCanvas s")
  case None
  then show ?thesis by (simp add: drawStroke_no_canvas)
next
  case (Some c)
  show ?thesis
  proof (cases "lastPointRef s")
    case None
    then show ?thesis by (simp add: drawStroke_no_lastPoint)
  next
    case (Some lastPoint)
    obtain ts v d where g: "strokeGeometry settings lastPoint cur = (ts, v, d)"
      by (cases "strokeGeometry settings lastPoint cur") auto
    from assms Some g obtain n where n: "strokeSteps d (strokeStepSize settings ts) = enat n"
      and r: "0 \<le> ts / 2" "0 \<le> (ts / 2) * roundness settings"
      by (auto simp: strokeWellFormed_def)
    obtain l where "strokeLoop rnd settings lastPoint cur ts v (enat n) 0 (strokeStart settings ts c s)
        = Some (Returns l)"
      using strokeLoop_returns [OF r, of 0 n] by blast
    then show ?thesis
      by (simp add: drawStroke_unfold [OF \<open>drawingCanvas s = Some c\<close> Some g] n)
  qed
qed

lemma drawStroke_plain:
  assumes c: "drawingCanvas s = Some c" and lp: "lastPointRef s = Some lastPoint"
    and g: "strokeGeometry settings lastPoint cur = (targetSize, velocity, distance)"
    and n: "strokeSteps distance (strokeStepSize settings targetSize) = enat n"
    and noskip: "size_s settings \<le> 1 \<or> isEraser settings
             \<or> (\<forall>k. \<not> rnd k < (velocity * roughness settings) / 5)"
    and nosplat: "size_s settings \<le> 1 \<or> isEraser settings \<or> roughness settings \<le> 0.2"
    and radii: "\<not> (targetSize / 2 < 0 \<or> (targetSize / 2) * roundness settings < 0)"
  shows "drawStroke rnd settings cur s =
     Some (Returns (strokeEnd s
       (plainStroke settings lastPoint cur targetSize n 0 (strokeStart settings targetSize c s))))"
  using strokeLoop_plain [where rnd = rnd and settings = settings and velocity = velocity
      and targetSize = targetSize and i = 0 and n = n, OF noskip nosplat radii]
  by (simp add: drawStroke_unfold [OF c lp g] n)

lemma pixels_strokeContext [simp]: "pixels (strokeContext settings ts c) = pixels c"
  by (simp add: strokeContext_def Let_def setShadowBlur_def)

lemma composite_strokeContext [simp]:
  "globalCompositeOperation (strokeContext settings ts c)
     = (if isEraser settings then DestinationOut else SourceOver)"
  by (simp add: strokeContext_def Let_def setShadowBlur_def)

lemma shadowColor_strokeContext [simp]:
  "shadowColor (strokeContext settings ts c)
     = (if isEraser settings then shadowColor c else color settings)"
  by (simp add: strokeContext_def Let_def setShadowBlur_def)

lemma shadowBlur_strokeContext_eraser:
  "isEraser settings \<Longrightarrow> shadowBlur (strokeContext settings ts c) = 0"
  by (simp add: strokeContext_def Let_def setShadowBlur_def)

lemma shadowBlur_strokeContext_hard:
  "hardness settings \<ge> 0.95 \<or> size_s settings \<le> 1 \<Longrightarrow> shadowBlur (strokeContext settings ts c) = 0"
  by (auto simp add: strokeContext_def Let_def setShadowBlur_def)

lemma rasterOf_strokeEnd [simp]: "rasterOf (strokeEnd s l) = pixels (ctx l)"
  by (simp add: rasterOf_def strokeEnd_def setShadowBlur_def)

lemma svg_strokeEnd [simp]: "drawingSvgRef (strokeEnd s l) = svgRef l"
  "randomCount (strokeEnd s l) = randomCalls l" "textSvgRef (strokeEnd s l) = textSvgRef s"
  "historyRef (strokeEnd s l) = historyRef s" "lastPointRef (strokeEnd s l) = lastPointRef s"
  by (simp_all add: strokeEnd_def)

lemma plainStroke_sel [simp]:
  "pixels (ctx (plainStroke settings lp cur ts n i l))
     = pixels (ctx l) @ map (\<lambda>j. stampOp settings lp cur ts (real j / real n) (ctx l)) [i..<n]"
  "svgRef (plainStroke settings lp cur ts n i l)
     = svgRef l @ (if isEraser settings then []
          else map (\<lambda>j. stampEntry settings lp cur ts (real j / real n)) [i..<n])"
  "randomCalls (plainStroke settings lp cur ts n i l) = randomCalls l + (n - i)"
  by (simp_all add: plainStroke_def)

lemma strokeStart_sel [simp]:
  "ctx (strokeStart settings ts c s) = strokeContext settings ts c"
  "svgRef (strokeStart settings ts c s) = drawingSvgRef s"
  "randomCalls (strokeStart settings ts c s) = randomCount s"
  by (simp_all add: strokeStart_def)

lemma scenario_geometry:
  assumes "size_s settings = 20" "taper settings = 0"
    "x_p lastPoint = 0" "y_p lastPoint = 0" "time lastPoint = 0"
    "x_p cur = 100" "y_p cur = 0" "time cur = 100"
  shows "strokeGeometry settings lastPoint cur = (30, 1, 100)"
proof -
  have "sqrt ((100::real) ^ 2) = 100" by simp
  then have d: "getDistance lastPoint cur = 100" using assms by (simp add: getDistance_def)
  have v: "segmentVelocity lastPoint cur = 1" using assms d by (simp add: segmentVelocity_def)
  show ?thesis
    using assms d v by (simp add: strokeGeometry_def calculateBrushPhysics_def Let_def)
qed

lemma scenario_steps:
  assumes "spacing settings = 0"
  shows "strokeSteps 100 (strokeStepSize settings 30) = enat 67"
proof -
  have s: "strokeStepSize settings 30 = 3 / 2" using assms by (simp add: strokeStepSize_def Let_def)
  have "\<lceil>(100::real) / (3 / 2)\<rceil> = 67" by (simp add: ceiling_eq_iff)
  then show ?thesis unfolding s by (simp add: strokeSteps_def)
qed

lemma scenario_run:
  assumes cfg: "size_s settings = 20" "roundness settings = 1" "spacing settings = 0"
      "roughness settings = 0" "taper settings = 0"
    and pts: "x_p lastPoint = 0" "y_p lastPoint = 0" "time lastPoint = 0"
      "x_p cur = 100" "y_p cur = 0" "time cur = 100"
    and st: "drawingCanvas s = Some c" "lastPointRef s = Some lastPoint"
    and rnd: "\<forall>k. 0 \<le> rnd k \<and> rnd k < 1"
  shows "drawStroke rnd settings cur s =
     Some (Returns (strokeEnd s
       (plainStroke settings lastPoint cur 30 67 0 (strokeStart settings 30 c s))))"
proof -
  note g = scenario_geometry [OF cfg(1) cfg(5) pts]
  note n = scenario_steps [OF cfg(3)]
  have noskip: "size_s settings \<le> 1 \<or> isEraser settings
             \<or> (\<forall>k. \<not> rnd k < (1 * roughness settings) / 5)"
    using rnd cfg(4) by (simp add: not_less)
  have nosplat: "size_s settings \<le> 1 \<or> isEraser settings \<or> roughness settings \<le> 0.2"
    using cfg(4) by simp
  have radii: "\<not> ((30::real) / 2 < 0 \<or> (30 / 2) * roundness settings < 0)"
    using cfg(2) by simp
  show ?thesis by (rule drawStroke_plain [OF st g n noskip nosplat radii])
qed

text \<open>
  Claim C2, as amended.  For the configuration \<open>size = 20\<close>, \<open>roundness = 1\<close>, \<open>spacing = 0\<close>,
  \<open>roughness = 0\<close>, \<open>taper = 0\<close>, \<open>hardness = 1\<close> and the samples \<open>(0, 0, t = 0)\<close> and
  \<open>(100, 0, t = 100)\<close>, whatever the pressures, the colour, the angle and the random numbers,
  one call of \<open>drawStroke\<close> returns and emits exactly \<open>ceil(100 / max(0.5, 1.5)) = 67\<close>
  stamps: the target size is \<open>size * 1.5 = 30\<close>.  The stamps are centred at
  \<open>(100 i / 67, 0)\<close>, with both radii 15, the rotation of the configured angle (in radians
  on the canvas, in degrees in the vector log), full opacity and no glow; none is skipped
  and there is no splatter.
\<close>

theorem end_to_end_scenario:
  assumes cfg: "size_s settings = 20" "roundness settings = 1" "spacing settings = 0"
      "roughness settings = 0" "taper settings = 0" "hardness settings = 1"
    and pts: "x_p lastPoint = 0" "y_p lastPoint = 0" "time lastPoint = 0"
      "x_p cur = 100" "y_p cur = 0" "time cur = 100"
    and st: "drawingCanvas s = Some c" "lastPointRef s = Some lastPoint"
    and rnd: "\<forall>k. 0 \<le> rnd k \<and> rnd k < 1"
  shows "\<exists>s'. drawStroke rnd settings cur s = Some (Returns s')
     \<and> rasterOf s' = pixels c @
          map (\<lambda>i. \<lparr> op_x = 100 * real i / 67, op_y = 0, op_rx = 15, op_ry = 15,
                     op_rotation = angle settings * (pi / 180), op_fill = color settings,
                     op_alpha = 1,
                     op_composite = (if isEraser settings then DestinationOut else SourceOver),
                     op_blur = 0,
                     op_blurColor = (if isEraser settings then shadowColor c else color settings) \<rparr>)
            [0..<67]
     \<and> drawingSvgRef s' = drawingSvgRef s @
          (if isEraser settings then []
           else map (\<lambda>i. \<lparr> svg_cx = 100 * real i / 67, svg_cy = 0, svg_rx = 15, svg_ry = 15,
                           svg_rotDeg = angle settings, svg_fill = color settings,
                           svg_opacity = 1 \<rparr>) [0..<67])
     \<and> randomCount s' = randomCount s + 67"
proof -
  have blur: "shadowBlur (strokeContext settings 30 c) = 0"
    using cfg(6) by (intro shadowBlur_strokeContext_hard) simp
  have run: "drawStroke rnd settings cur s =
     Some (Returns (strokeEnd s
       (plainStroke settings lastPoint cur 30 67 0 (strokeStart settings 30 c s))))"
    by (rule scenario_run [OF cfg(1-5) pts st rnd])
  have ops: "\<And>j. stampOp settings lastPoint cur 30 (real j / 67) (strokeContext settings 30 c)
      = \<lparr> op_x = 100 * real j / 67, op_y = 0, op_rx = 15, op_ry = 15,
                     op_rotation = angle settings * (pi / 180), op_fill = color settings,
                     op_alpha = 1,
                     op_composite = (if isEraser settings then DestinationOut else SourceOver),
                     op_blur = 0,
                     op_blurColor = (if isEraser settings then shadowColor c else color settings) \<rparr>"
    using pts cfg(2) blur by (simp add: stampOp_def)
  have ents: "\<And>j. stampEntry settings lastPoint cur 30 (real j / 67)
      = \<lparr> svg_cx = 100 * real j / 67, svg_cy = 0, svg_rx = 15, svg_ry = 15,
                           svg_rotDeg = angle settings, svg_fill = color settings,
                           svg_opacity = 1 \<rparr>"
    using pts cfg(2) by (simp add: stampEntry_def)
  show ?thesis
    unfolding run by (simp add: ops ents)
qed

lemma constRandom_ok: "0 \<le> v \<Longrightarrow> v < 1 \<Longrightarrow> \<forall>k. 0 \<le> constRandom v k \<and> constRandom v k < 1"
  by (simp add: constRandom_def)

lemma returned_Returns [simp]: "returned (Some (Returns a)) = Some a"
  by (simp add: returned_def)

theorem end_to_end_scenario_witness:
  "size_s scenarioSettings = 20 \<and> roundness scenarioSettings = 1 \<and> spacing scenarioSettings = 0
   \<and> roughness scenarioSettings = 0 \<and> taper scenarioSettings = 0 \<and> hardness scenarioSettings = 1
   \<and> lastPointRef (initialState\<lparr>lastPointRef := Some (sample 0 0 0.5 0)\<rparr>) = Some (sample 0 0 0.5 0)
   \<and> drawingCanvas (initialState\<lparr>lastPointRef := Some (sample 0 0 0.5 0)\<rparr>) = Some freshContext
   \<and> (\<forall>k. 0 \<le> constRandom 0.5 k \<and> constRandom 0.5 k < 1)
   \<and> map_option (\<lambda>s. length (rasterOf s))
        (returned (drawStroke (constRandom 0.5) scenarioSettings (sample 100 0 0.5 100)
           (initialState\<lparr>lastPointRef := Some (sample 0 0 0.5 0)\<rparr>))) = Some 67
   \<and> map_option (\<lambda>s. length (drawingSvgRef s))
        (returned (drawStroke (constRandom 0.5) scenarioSettings (sample 100 0 0.5 100)
           (initialState\<lparr>lastPointRef := Some (sample 0 0 0.5 0)\<rparr>))) = Some 67"
proof -
  let ?s = "initialState\<lparr>lastPointRef := Some (sample 0 0 0.5 0)\<rparr>"
  have cfg: "size_s scenarioSettings = 20" "roundness scenarioSettings = 1"
    "spacing scenarioSettings = 0" "roughness scenarioSettings = 0" "taper scenarioSettings = 0"
    "hardness scenarioSettings = 1"
    by (simp_all add: scenarioSettings_def)
  have pts: "x_p (sample 0 0 0.5 0) = 0" "y_p (sample 0 0 0.5 0) = 0" "time (sample 0 0 0.5 0) = 0"
    "x_p (sample 100 0 0.5 100) = 100" "y_p (sample 100 0 0.5 100) = 0"
    "time (sample 100 0 0.5 100) = 100"
    by (simp_all add: sample_def)
  have st: "drawingCanvas ?s = Some freshContext" "lastPointRef ?s = Some (sample 0 0 0.5 0)"
    by (simp_all add: initialState_def)
  have rnd: "\<forall>k. 0 \<le> constRandom 0.5 k \<and> constRandom 0.5 k < 1"
    by (rule constRandom_ok) simp_all
  from end_to_end_scenario [OF cfg pts st rnd]
  obtain s' where r: "drawStroke (constRandom 0.5) scenarioSettings (sample 100 0 0.5 100) ?s
        = Some (Returns s')"
    and px: "length (rasterOf s') = 67" and sv: "length (drawingSvgRef s') = 67"
    by (auto simp: freshContext_def initialState_def scenarioSettings_def)
  have 1: "map_option (\<lambda>s. length (rasterOf s))
        (returned (drawStroke (constRandom 0.5) scenarioSettings (sample 100 0 0.5 100) ?s)) = Some 67"
    and 2: "map_option (\<lambda>s. length (drawingSvgRef s))
        (returned (drawStroke (constRandom 0.5) scenarioSettings (sample 100 0 0.5 100) ?s)) = Some 67"
    unfolding r returned_Returns using px sv by simp_all
  from cfg st rnd 1 2 show ?thesis by (intro conjI)
qed

text \<open>
  Claim C2 as stated (100 stamps of radius 10) fails on the scenario itself: the call emits
  67 stamps, each of radius 15.
\<close>

theorem end_to_end_scenario_counterexample:
  "map_option (\<lambda>s. length (rasterOf s))
        (returned (drawStroke (constRandom 0.5) scenarioSettings (sample 100 0 0.5 100)
           (initialState\<lparr>lastPointRef := Some (sample 0 0 0.5 0)\<rparr>))) = Some 67
   \<and> map_option (\<lambda>s. length (rasterOf s))
        (returned (drawStroke (constRandom 0.5) scenarioSettings (sample 100 0 0.5 100)
           (initialState\<lparr>lastPointRef := Some (sample 0 0 0.5 0)\<rparr>))) \<noteq> Some 100
   \<and> map_option (\<lambda>s. map op_rx (rasterOf s))
        (returned (drawStroke (constRandom 0.5) scenarioSettings (sample 100 0 0.5 100)
           (initialState\<lparr>lastPointRef := Some (sample 0 0 0.5 0)\<rparr>))) = Some (replicate 67 15)"
proof -
  let ?s = "initialState\<lparr>lastPointRef := Some (sample 0 0 0.5 0)\<rparr>"
  have cfg: "size_s scenarioSettings = 20" "roundness scenarioSettings = 1"
    "spacing scenarioSettings = 0" "roughness scenarioSettings = 0" "taper scenarioSettings = 0"
    by (simp_all add: scenarioSettings_def)
  have pts: "x_p (sample 0 0 0.5 0) = 0" "y_p (sample 0 0 0.5 0) = 0" "time (sample 0 0 0.5 0) = 0"
    "x_p (sample 100 0 0.5 100) = 100" "y_p (sample 100 0 0.5 100) = 0"
    "time (sample 100 0 0.5 100) = 100"
    by (simp_all add: sample_def)
  have st: "drawingCanvas ?s = Some freshContext" "lastPointRef ?s = Some (sample 0 0 0.5 0)"
    by (simp_all add: initialState_def)
  have rnd: "\<forall>k. 0 \<le> constRandom 0.5 k \<and> constRandom 0.5 k < 1"
    by (rule constRandom_ok) simp_all
  note run = scenario_run [OF cfg pts st rnd]
  let ?L = "plainStroke scenarioSettings (sample 0 0 0.5 0) (sample 100 0 0.5 100) 30 67 0
      (strokeStart scenarioSettings 30 freshContext ?s)"
  have len: "length (rasterOf (strokeEnd ?s ?L)) = 67"
    by (simp add: freshContext_def)
  have rxs: "map op_rx (rasterOf (strokeEnd ?s ?L)) = replicate 67 15"
    by (simp add: freshContext_def stampOp_def comp_def map_replicate_const)
  show ?thesis
    unfolding run returned_Returns option.map len rxs by simp
qed

section \<open>Properties of the stroke engine: hairline mode\<close>

lemma hairline_geometry:
  "size_s settings \<le> 1 \<Longrightarrow>
     strokeGeometry settings lastPoint cur
       = (hairlineSize settings, 0,
          sqrt ((x_p cur - x_p lastPoint) ^ 2 + (y_p cur - y_p lastPoint) ^ 2))"
  by (simp add: strokeGeometry_def hairlineSize_def)

lemma hairline_stepSize:
  assumes "size_s settings \<le> 1"
  shows "strokeStepSize settings (hairlineSize settings)
           = 0.5 + spacing settings * hairlineSize settings * 1.5"
proof -
  have "hairlineSize settings \<le> 1" using assms by (simp add: hairlineSize_def)
  then have "max 0.5 (hairlineSize settings * 0.05) = 0.5" by (simp add: max_def)
  then show ?thesis by (simp add: strokeStepSize_def Let_def)
qed

lemma hairline_steps:
  assumes "size_s settings \<le> 1" "0 \<le> size_s settings" "0 \<le> spacing settings"
  shows "strokeSteps d (strokeStepSize settings (hairlineSize settings))
           = enat (nat \<lceil>d / (0.5 + spacing settings * hairlineSize settings * 1.5)\<rceil>)"
proof -
  have "0 \<le> hairlineSize settings" using assms by (simp add: hairlineSize_def)
  then have "0 \<le> spacing settings * hairlineSize settings * 1.5" using assms by simp
  then have "0.5 + spacing settings * hairlineSize settings * 1.5 \<noteq> 0" by linarith
  then show ?thesis by (simp add: strokeSteps_def hairline_stepSize [OF assms(1)])
qed

lemma hairline_run:
  assumes "size_s settings \<le> 1" "0 \<le> size_s settings" "0 \<le> roundness settings"
    "0 \<le> spacing settings" "drawingCanvas s = Some c" "lastPointRef s = Some lastPoint"
  shows "drawStroke rnd settings cur s =
     Some (Returns (strokeEnd s
       (plainStroke settings lastPoint cur (hairlineSize settings)
          (nat \<lceil>sqrt ((x_p cur - x_p lastPoint) ^ 2 + (y_p cur - y_p lastPoint) ^ 2)
                 / (0.5 + spacing settings * hairlineSize settings * 1.5)\<rceil>) 0
          (strokeStart settings (hairlineSize settings) c s))))"
proof -
  have h: "0 \<le> hairlineSize settings" using assms(2) by (simp add: hairlineSize_def)
  have noskip: "size_s settings \<le> 1 \<or> isEraser settings
             \<or> (\<forall>k. \<not> rnd k < (0 * roughness settings) / 5)"
    using assms(1) by simp
  have nosplat: "size_s settings \<le> 1 \<or> isEraser settings \<or> roughness settings \<le> 0.2"
    using assms(1) by simp
  have radii: "\<not> (hairlineSize settings / 2 < 0
                  \<or> (hairlineSize settings / 2) * roundness settings < 0)"
    using h assms(3) by (simp add: not_less)
  show ?thesis
    by (rule drawStroke_plain [OF assms(5,6) hairline_geometry [OF assms(1)]
          hairline_steps [OF assms(1,2,4)] noskip nosplat radii])
qed

text \<open>
  Claim C1, as amended.  For every pair of samples and every configuration with \<open>size \<le> 1\<close>
  the stroke engine skips the brush physics: the velocity is \<open>0\<close>, the distance is the
  Euclidean distance of the two samples, and the stamp size is the configured size, or the
  fixed minimal size \<open>0.5\<close> when the configured size is exactly \<open>0\<close>.  With a size, a
  roundness and a spacing that are not negative the call returns, whatever the pressures,
  the times and the random numbers, and the raster gains one stamp per step, of radii
  \<open>stampSize / 2\<close> and \<open>stampSize / 2 * roundness\<close>, at full opacity and with no glow; no
  stamp is skipped.
\<close>

theorem hairline_stroke:
  assumes "size_s settings \<le> 1"
  shows "strokeGeometry settings lastPoint cur
       = (if size_s settings = 0 then 0.5 else size_s settings, 0,
          sqrt ((x_p cur - x_p lastPoint) ^ 2 + (y_p cur - y_p lastPoint) ^ 2))
     \<and> (0 \<le> size_s settings \<and> 0 \<le> roundness settings \<and> 0 \<le> spacing settings
          \<and> drawingCanvas s = Some c \<and> lastPointRef s = Some lastPoint \<longrightarrow>
        (\<exists>s'. drawStroke rnd settings cur s = Some (Returns s')
          \<and> rasterOf s' = pixels c @
              map (\<lambda>i. \<lparr> op_x = x_p lastPoint + (x_p cur - x_p lastPoint)
                                 * (real i / real (nat \<lceil>sqrt ((x_p cur - x_p lastPoint) ^ 2
                                       + (y_p cur - y_p lastPoint) ^ 2)
                                     / (0.5 + spacing settings * hairlineSize settings * 1.5)\<rceil>)),
                         op_y = y_p lastPoint + (y_p cur - y_p lastPoint)
                                 * (real i / real (nat \<lceil>sqrt ((x_p cur - x_p lastPoint) ^ 2
                                       + (y_p cur - y_p lastPoint) ^ 2)
                                     / (0.5 + spacing settings * hairlineSize settings * 1.5)\<rceil>)),
                         op_rx = hairlineSize settings / 2,
                         op_ry = (hairlineSize settings / 2) * roundness settings,
                         op_rotation = angle settings * (pi / 180),
                         op_fill = color settings,
                         op_alpha = 1,
                         op_composite = (if isEraser settings then DestinationOut else SourceOver),
                         op_blur = 0,
                         op_blurColor = (if isEraser settings then shadowColor c
                                         else color settings) \<rparr>)
                [0..<nat \<lceil>sqrt ((x_p cur - x_p lastPoint) ^ 2 + (y_p cur - y_p lastPoint) ^ 2)
                           / (0.5 + spacing settings * hairlineSize settings * 1.5)\<rceil>]))
     \<and> hairlineSize settings = (if size_s settings = 0 then 0.5 else size_s settings)"
proof (intro conjI impI)
  show "strokeGeometry settings lastPoint cur
       = (if size_s settings = 0 then 0.5 else size_s settings, 0,
          sqrt ((x_p cur - x_p lastPoint) ^ 2 + (y_p cur - y_p lastPoint) ^ 2))"
    using hairline_geometry [OF assms] by (simp add: hairlineSize_def)
  show "hairlineSize settings = (if size_s settings = 0 then 0.5 else size_s settings)"
    by (simp add: hairlineSize_def)
next
  assume a: "0 \<le> size_s settings \<and> 0 \<le> roundness settings \<and> 0 \<le> spacing settings
          \<and> drawingCanvas s = Some c \<and> lastPointRef s = Some lastPoint"
  let ?n = "nat \<lceil>sqrt ((x_p cur - x_p lastPoint) ^ 2 + (y_p cur - y_p lastPoint) ^ 2)
                 / (0.5 + spacing settings * hairlineSize settings * 1.5)\<rceil>"
  have run: "drawStroke rnd settings cur s =
     Some (Returns (strokeEnd s
       (plainStroke settings lastPoint cur (hairlineSize settings) ?n 0
          (strokeStart settings (hairlineSize settings) c s))))"
    using a by (intro hairline_run [OF assms]) simp_all
  have blur: "shadowBlur (strokeContext settings (hairlineSize settings) c) = 0"
    using assms by (intro shadowBlur_strokeContext_hard) simp
  show "\<exists>s'. drawStroke rnd settings cur s = Some (Returns s')
          \<and> rasterOf s' = pixels c @
              map (\<lambda>i. \<lparr> op_x = x_p lastPoint + (x_p cur - x_p lastPoint) * (real i / real ?n),
                         op_y = y_p lastPoint + (y_p cur - y_p lastPoint) * (real i / real ?n),
                         op_rx = hairlineSize settings / 2,
                         op_ry = (hairlineSize settings / 2) * roundness settings,
                         op_rotation = angle settings * (pi / 180),
                         op_fill = color settings,
                         op_alpha = 1,
                         op_composite = (if isEraser settings then DestinationOut else SourceOver),
                         op_blur = 0,
                         op_blurColor = (if isEraser settings then shadowColor c
                                         else color settings) \<rparr>)
                [0..<?n]"
    unfolding run by (simp add: stampOp_def blur)
qed

lemma penDown_sel [simp]:
  "drawingCanvas (penDown p) = Some freshContext" "lastPointRef (penDown p) = Some p"
  "drawingSvgRef (penDown p) = []" "textSvgRef (penDown p) = []" "randomCount (penDown p) = 0"
  by (simp_all add: penDown_def initialState_def)

lemma sample_sel [simp]:
  "x_p (sample x y p t) = x" "y_p (sample x y p t) = y" "pressure (sample x y p t) = p"
  "time (sample x y p t) = t"
  by (simp_all add: sample_def)

lemma hairlineSettings_sel [simp]:
  "size_s hairlineSettings = 0.6" "roundness hairlineSettings = 1" "spacing hairlineSettings = 0"
  "isEraser hairlineSettings = False"
  by (simp_all add: hairlineSettings_def scenarioSettings_def)

lemma hairline_example_steps:
  "nat \<lceil>sqrt ((x_p (sample 5 0 0.5 10) - x_p (sample 0 0 0.5 0)) ^ 2
            + (y_p (sample 5 0 0.5 10) - y_p (sample 0 0 0.5 0)) ^ 2)
         / (0.5 + spacing hairlineSettings * hairlineSize hairlineSettings * 1.5)\<rceil> = 10"
proof -
  have "sqrt ((5::real) ^ 2) = 5" by simp
  then show ?thesis by simp
qed

lemma hairline_example_run:
  "drawStroke rnd hairlineSettings (sample 5 0 0.5 10) (penDown (sample 0 0 0.5 0)) =
     Some (Returns (strokeEnd (penDown (sample 0 0 0.5 0))
       (plainStroke hairlineSettings (sample 0 0 0.5 0) (sample 5 0 0.5 10) (hairlineSize hairlineSettings)
          10 0 (strokeStart hairlineSettings (hairlineSize hairlineSettings) freshContext
                  (penDown (sample 0 0 0.5 0))))))"
  using hairline_run [of hairlineSettings "penDown (sample 0 0 0.5 0)" freshContext "sample 0 0 0.5 0"
      rnd "sample 5 0 0.5 10"]
  unfolding hairline_example_steps by simp

text \<open>
  Claim C1 as stated (a fixed stamp size \<open>0.5\<close> for every size up to 1) fails at the size
  \<open>0.6\<close>: the stamp size is \<open>0.6\<close>, and the ten stamps of a segment of length 5 have the
  radius \<open>0.3\<close>.  At the size \<open>1\<close> the stamp size is \<open>1\<close>.
\<close>

theorem hairline_stroke_counterexample:
  "size_s hairlineSettings \<le> 1
   \<and> fst (strokeGeometry hairlineSettings (sample 0 0 0.5 0) (sample 5 0 0.5 10)) = 0.6
   \<and> fst (strokeGeometry hairlineSettings (sample 0 0 0.5 0) (sample 5 0 0.5 10)) \<noteq> 0.5
   \<and> fst (strokeGeometry (hairlineSettings\<lparr>size_s := 1\<rparr>) (sample 0 0 0.5 0) (sample 5 0 0.5 10)) = 1
   \<and> map_option (\<lambda>s. map op_rx (rasterOf s))
        (returned (drawStroke (constRandom 0.5) hairlineSettings (sample 5 0 0.5 10)
           (penDown (sample 0 0 0.5 0)))) = Some (replicate 10 0.3)"
proof -
  have g: "fst (strokeGeometry hairlineSettings (sample 0 0 0.5 0) (sample 5 0 0.5 10)) = 0.6"
    by (simp add: strokeGeometry_def)
  have g1: "fst (strokeGeometry (hairlineSettings\<lparr>size_s := 1\<rparr>) (sample 0 0 0.5 0)
      (sample 5 0 0.5 10)) = 1"
    by (simp add: strokeGeometry_def)
  have rxs: "map op_rx (rasterOf (strokeEnd (penDown (sample 0 0 0.5 0))
       (plainStroke hairlineSettings (sample 0 0 0.5 0) (sample 5 0 0.5 10) (hairlineSize hairlineSettings)
          10 0 (strokeStart hairlineSettings (hairlineSize hairlineSettings) freshContext
                  (penDown (sample 0 0 0.5 0)))))) = replicate 10 0.3"
    by (simp add: freshContext_def stampOp_def comp_def map_replicate_const hairlineSize_def)
  show ?thesis
    unfolding hairline_example_run returned_Returns option.map rxs g g1 by simp
qed

theorem hairline_stroke_witness:
  "size_s hairlineSettings \<le> 1
   \<and> strokeGeometry hairlineSettings (sample 0 0 0.5 0) (sample 5 0 0.5 10) = (0.6, 0, 5)
   \<and> size_s (hairlineSettings\<lparr>size_s := 0\<rparr>) \<le> 1
   \<and> strokeGeometry (hairlineSettings\<lparr>size_s := 0\<rparr>) (sample 0 0 0.5 0) (sample 5 0 0.5 10)
       = (0.5, 0, 5)
   \<and> 0 \<le> size_s hairlineSettings \<and> 0 \<le> roundness hairlineSettings
   \<and> 0 \<le> spacing hairlineSettings
   \<and> drawingCanvas (penDown (sample 0 0 0.5 0)) = Some freshContext
   \<and> lastPointRef (penDown (sample 0 0 0.5 0)) = Some (sample 0 0 0.5 0)
   \<and> map_option (\<lambda>s. length (rasterOf s))
        (returned (drawStroke (constRandom 0.5) hairlineSettings (sample 5 0 0.5 10)
           (penDown (sample 0 0 0.5 0)))) = Some 10"
proof -
  have le: "size_s hairlineSettings \<le> 1" and le0: "size_s (hairlineSettings\<lparr>size_s := 0\<rparr>) \<le> 1"
    by simp_all
  have sq: "sqrt ((5::real) ^ 2) = 5" by simp
  note a = hairline_stroke [OF le, of "sample 0 0 0.5 0" "sample 5 0 0.5 10"
      "penDown (sample 0 0 0.5 0)" freshContext "constRandom 0.5"]
  note b = hairline_stroke [OF le0, of "sample 0 0 0.5 0" "sample 5 0 0.5 10"
      "penDown (sample 0 0 0.5 0)" freshContext "constRandom 0.5"]
  have 1: "strokeGeometry hairlineSettings (sample 0 0 0.5 0) (sample 5 0 0.5 10) = (0.6, 0, 5)"
    using a [THEN conjunct1] sq by simp
  have 2: "strokeGeometry (hairlineSettings\<lparr>size_s := 0\<rparr>) (sample 0 0 0.5 0) (sample 5 0 0.5 10)
       = (0.5, 0, 5)"
    using b [THEN conjunct1] sq by simp
  have pre: "0 \<le> size_s hairlineSettings \<and> 0 \<le> roundness hairlineSettings
          \<and> 0 \<le> spacing hairlineSettings
          \<and> drawingCanvas (penDown (sample 0 0 0.5 0)) = Some freshContext
          \<and> lastPointRef (penDown (sample 0 0 0.5 0)) = Some (sample 0 0 0.5 0)"
    by simp
  from a [THEN conjunct2, THEN conjunct1, rule_format, OF pre]
  obtain s' where r: "drawStroke (constRandom 0.5) hairlineSettings (sample 5 0 0.5 10)
        (penDown (sample 0 0 0.5 0)) = Some (Returns s')"
    and px: "length (rasterOf s') = nat \<lceil>sqrt ((x_p (sample 5 0 0.5 10) - x_p (sample 0 0 0.5 0)) ^ 2
            + (y_p (sample 5 0 0.5 10) - y_p (sample 0 0 0.5 0)) ^ 2)
         / (0.5 + spacing hairlineSettings * hairlineSize hairlineSettings * 1.5)\<rceil>"
    by (auto simp: freshContext_def)
  have 3: "map_option (\<lambda>s. length (rasterOf s))
        (returned (drawStroke (constRandom 0.5) hairlineSettings (sample 5 0 0.5 10)
           (penDown (sample 0 0 0.5 0)))) = Some 10"
    unfolding r returned_Returns option.map px hairline_example_steps by simp
  from le 1 le0 2 pre 3 show ?thesis by (intro conjI) (simp_all only: simp_thms)
qed

section \<open>Properties of the stroke engine: the eraser and the drawing context\<close>

lemma strokeLoop_infinite:
  assumes run: "strokeLoop rnd settings lastPoint cur targetSize velocity steps i l = Some r"
  shows "steps = \<infinity> \<longrightarrow> (\<exists>l'. r = Throws l')"
proof (rule strokeLoop.raw_induct
    [where P = "\<lambda>rnd settings lastPoint cur targetSize velocity steps i l r.
                  steps = \<infinity> \<longrightarrow> (\<exists>l'. r = Throws l')", OF _ run])
  fix loop :: "(nat \<Rightarrow> real) \<Rightarrow> BrushSettings \<Rightarrow> Point \<Rightarrow> Point \<Rightarrow> real \<Rightarrow> real \<Rightarrow> enat \<Rightarrow> nat \<Rightarrow> Layer
     \<Rightarrow> Layer outcome option"
  fix rnd settings lastPoint cur targetSize velocity steps i l r
  assume IH: "\<And>rnd settings lastPoint cur targetSize velocity steps i l r.
      loop rnd settings lastPoint cur targetSize velocity steps i l = Some r \<Longrightarrow>
      steps = \<infinity> \<longrightarrow> (\<exists>l'. r = Throws l')"
  assume body: "(if enat i < steps
      then case strokeStep rnd settings lastPoint cur targetSize velocity (stepParam i steps) l of
           Returns l' \<Rightarrow> loop rnd settings lastPoint cur targetSize velocity steps (Suc i) l'
           | Throws l' \<Rightarrow> Some (Throws l')
      else Some (Returns l)) = Some r"
  show "steps = \<infinity> \<longrightarrow> (\<exists>l'. r = Throws l')"
  proof
    assume inf: "steps = \<infinity>"
    then have lt: "enat i < steps" by simp
    show "\<exists>l'. r = Throws l'"
    proof (cases "strokeStep rnd settings lastPoint cur targetSize velocity (stepParam i steps) l")
      case (Returns l')
      with body lt have "loop rnd settings lastPoint cur targetSize velocity steps (Suc i) l' = Some r"
        by simp
      from IH [OF this] inf show ?thesis by simp
    next
      case (Throws l')
      with body lt show ?thesis by auto
    qed
  qed
qed

lemma eraser_loop_returns:
  assumes e: "isEraser settings"
    and run: "strokeLoop rnd settings lastPoint cur targetSize velocity steps 0 l = Some (Returns l')"
  shows "\<exists>n. steps = enat n \<and> l' = plainStroke settings lastPoint cur targetSize n 0 l"
proof (cases steps)
  case infinity
  with strokeLoop_infinite [OF run] show ?thesis by simp
next
  case (enat n)
  have noskip: "size_s settings \<le> 1 \<or> isEraser settings
             \<or> (\<forall>k. \<not> rnd k < (velocity * roughness settings) / 5)"
    and nosplat: "size_s settings \<le> 1 \<or> isEraser settings \<or> roughness settings \<le> 0.2"
    using e by simp_all
  show ?thesis
  proof (cases "targetSize / 2 < 0 \<or> (targetSize / 2) * roundness settings < 0")
    case False
    from strokeLoop_plain [where rnd = rnd and settings = settings and velocity = velocity
        and targetSize = targetSize and i = 0 and n = n, OF noskip nosplat False] run enat
    show ?thesis by simp
  next
    case True
    show ?thesis
    proof (cases "n = 0")
      case True
      with run enat have "l' = l" by (subst (asm) strokeLoop.simps) (simp add: zero_enat_def)
      with True enat show ?thesis by (simp add: plainStroke_done)
    next
      case False
      then have "enat 0 < steps" using enat by simp
      from strokeLoop_throws [where rnd = rnd and settings = settings and velocity = velocity
        and targetSize = targetSize and i = 0 and steps = steps, OF noskip nosplat True this] run
      show ?thesis by simp
    qed
  qed
qed

lemma drawStroke_eraser_svg:
  assumes e: "isEraser settings" and run: "drawStroke rnd settings cur s = Some r"
  shows "drawingSvgRef (outcomeState r) = drawingSvgRef s \<and> textSvgRef (outcomeState r) = textSvgRef s"
proof (cases "drawingCanvas s")
  case None
  with run have "r = Returns s" by (simp add: drawStroke_no_canvas)
  then show ?thesis by simp
next
  case (Some c)
  show ?thesis
  proof (cases "lastPointRef s")
    case None
    with run have "r = Returns s" by (simp add: drawStroke_no_lastPoint)
    then show ?thesis by simp
  next
    case (Some lastPoint)
    obtain ts v d where g: "strokeGeometry settings lastPoint cur = (ts, v, d)"
      by (cases "strokeGeometry settings lastPoint cur") auto
    note u = drawStroke_unfold [OF \<open>drawingCanvas s = Some c\<close> Some g, of rnd]
    from run obtain q where q: "strokeLoop rnd settings lastPoint cur ts v
             (strokeSteps d (strokeStepSize settings ts)) 0 (strokeStart settings ts c s) = Some q"
      unfolding u by (auto split: option.splits)
    from strokeLoop_eraser_svg [OF q] e
    have sv: "svgRef (outcomeState q) = drawingSvgRef s" by simp
    show ?thesis
    proof (cases q)
      case (Returns l)
      with run q have "r = Returns (strokeEnd s l)" unfolding u by simp
      with sv Returns show ?thesis by simp
    next
      case (Throws l)
      with run q have "r = Throws (s\<lparr>drawingCanvas := Some (ctx l), drawingSvgRef := svgRef l,
                           randomCount := randomCalls l\<rparr>)" unfolding u by simp
      with sv Throws show ?thesis by simp
    qed
  qed
qed

lemma drawStroke_eraser_raster:
  assumes e: "isEraser settings" and run: "drawStroke rnd settings cur s = Some (Returns s')"
    and c: "drawingCanvas s = Some c" and lp: "lastPointRef s = Some lastPoint"
  shows "\<exists>n. strokeSteps (snd (snd (strokeGeometry settings lastPoint cur)))
               (strokeStepSize settings (fst (strokeGeometry settings lastPoint cur))) = enat n
     \<and> rasterOf s' = pixels c @
          map (\<lambda>j. stampOp settings lastPoint cur (fst (strokeGeometry settings lastPoint cur))
                     (real j / real n)
                     (strokeContext settings (fst (strokeGeometry settings lastPoint cur)) c))
            [0..<n]
     \<and> map op_composite (rasterOf s') = map op_composite (pixels c) @ replicate n DestinationOut"
proof -
  obtain ts v d where g: "strokeGeometry settings lastPoint cur = (ts, v, d)"
    by (cases "strokeGeometry settings lastPoint cur") auto
  note u = drawStroke_unfold [OF c lp g, of rnd]
  from run obtain l where q: "strokeLoop rnd settings lastPoint cur ts v
             (strokeSteps d (strokeStepSize settings ts)) 0 (strokeStart settings ts c s)
               = Some (Returns l)" and s': "s' = strokeEnd s l"
    unfolding u by (auto split: option.splits outcome.splits)
  from eraser_loop_returns [OF e q] obtain n where
    n: "strokeSteps d (strokeStepSize settings ts) = enat n"
    and l: "l = plainStroke settings lastPoint cur ts n 0 (strokeStart settings ts c s)"
    by blast
  have comp: "map op_composite (map (\<lambda>j. stampOp settings lastPoint cur ts (real j / real n)
                     (strokeContext settings ts c)) [0..<n]) = replicate n DestinationOut"
    using e by (simp add: stampOp_def comp_def map_replicate_const)
  show ?thesis
    unfolding g s' l using n comp by simp
qed

lemma moveTo_eraser_svg:
  assumes e: "isEraser settings" and run: "moveTo rnd settings p s = Some r"
  shows "svgContent (outcomeState r) = svgContent s"
proof -
  from run obtain q where q: "drawStroke rnd settings p s = Some q"
    by (auto simp: moveTo_def split: option.splits)
  from drawStroke_eraser_svg [OF e q]
  have sv: "svgContent (outcomeState q) = svgContent s" by (simp add: svgContent_def)
  show ?thesis
  proof (cases q)
    case (Returns s1)
    with run q have "r = Returns (s1\<lparr>lastPointRef := Some p\<rparr>)" by (simp add: moveTo_def)
    with sv Returns show ?thesis by (simp add: svgContent_def)
  next
    case (Throws s1)
    with run q have "r = Throws s1" by (simp add: moveTo_def)
    with sv Throws show ?thesis by simp
  qed
qed

lemma strokeSession_eraser_svg:
  assumes e: "isEraser settings"
  shows "strokeSession rnd settings ps s = Some r \<Longrightarrow> svgContent (outcomeState r) = svgContent s"
proof (induction ps arbitrary: s)
  case Nil
  then show ?case by auto
next
  case (Cons p ps)
  from Cons.prems obtain q where q: "moveTo rnd settings p s = Some q"
    by (auto split: option.splits)
  note sv = moveTo_eraser_svg [OF e q]
  show ?case
  proof (cases q)
    case (Returns s1)
    with Cons.prems q have "strokeSession rnd settings ps s1 = Some r" by simp
    from Cons.IH [OF this] sv Returns show ?thesis by simp
  next
    case (Throws s1)
    with Cons.prems q have "r = Throws s1" by simp
    with sv Throws show ?thesis by simp
  qed
qed

text \<open>
  Claim C8.  With \<open>isEraser\<close> set, a call of \<open>drawStroke\<close> leaves the vector log of the
  drawing layer, and so the body of the vector export, as it was, whether the call returns
  or throws.  When it returns, the raster has gained exactly one fill per step of the loop,
  each composited with \<open>destination-out\<close>.  A whole session of eraser strokes leaves the body
  of the vector export as it was: it adds no ellipse.
\<close>

theorem eraser_not_in_vector_log:
  assumes "isEraser settings"
  shows "(drawStroke rnd settings cur s = Some r \<longrightarrow>
            drawingSvgRef (outcomeState r) = drawingSvgRef s
            \<and> svgContent (outcomeState r) = svgContent s)
     \<and> (drawStroke rnd settings cur s = Some (Returns s') \<and> drawingCanvas s = Some c
          \<and> lastPointRef s = Some lastPoint \<longrightarrow>
         (\<exists>n. strokeSteps (snd (snd (strokeGeometry settings lastPoint cur)))
                 (strokeStepSize settings (fst (strokeGeometry settings lastPoint cur))) = enat n
            \<and> rasterOf s' = pixels c @
                 map (\<lambda>j. stampOp settings lastPoint cur
                            (fst (strokeGeometry settings lastPoint cur)) (real j / real n)
                            (strokeContext settings (fst (strokeGeometry settings lastPoint cur)) c))
                   [0..<n]
            \<and> map op_composite (rasterOf s')
                 = map op_composite (pixels c) @ replicate n DestinationOut))
     \<and> (strokeSession rnd settings ps s = Some r' \<longrightarrow>
            svgContent (outcomeState r') = svgContent s)"
proof (intro conjI impI)
  assume run: "drawStroke rnd settings cur s = Some r"
  from drawStroke_eraser_svg [OF assms run]
  show "drawingSvgRef (outcomeState r) = drawingSvgRef s"
    and "svgContent (outcomeState r) = svgContent s"
    by (simp_all add: svgContent_def)
next
  assume a: "drawStroke rnd settings cur s = Some (Returns s') \<and> drawingCanvas s = Some c
          \<and> lastPointRef s = Some lastPoint"
  then show "\<exists>n. strokeSteps (snd (snd (strokeGeometry settings lastPoint cur)))
                 (strokeStepSize settings (fst (strokeGeometry settings lastPoint cur))) = enat n
            \<and> rasterOf s' = pixels c @
                 map (\<lambda>j. stampOp settings lastPoint cur
                            (fst (strokeGeometry settings lastPoint cur)) (real j / real n)
                            (strokeContext settings (fst (strokeGeometry settings lastPoint cur)) c))
                   [0..<n]
            \<and> map op_composite (rasterOf s')
                 = map op_composite (pixels c) @ replicate n DestinationOut"
    using drawStroke_eraser_raster [OF assms, of rnd cur s s' c lastPoint] by blast
next
  assume "strokeSession rnd settings ps s = Some r'"
  then show "svgContent (outcomeState r') = svgContent s"
    by (rule strokeSession_eraser_svg [OF assms])
qed

text \<open>
  Claim C10.  A call of \<open>drawStroke\<close> that returns leaves the drawing context with
  \<open>globalCompositeOperation = source-over\<close> and \<open>shadowBlur = 0\<close>, for every configuration, the
  eraser included: the call resets both once it has a canvas and a last point, and the
  early return changes nothing on a context that already has them.  The call does return
  whenever the stroke is well formed (a loop with a last index, no negative radius).
\<close>

theorem drawStroke_resets_context:
  "(drawStroke rnd settings cur s = Some (Returns s') \<and> (lastPointRef s \<noteq> None \<or> ctxClean s)
      \<longrightarrow> ctxClean s')
   \<and> (strokeWellFormed settings cur s \<longrightarrow> (\<exists>s''. drawStroke rnd settings cur s = Some (Returns s'')))"
  using drawStroke_clean [of rnd settings cur s s'] drawStroke_returns [of settings cur s rnd]
  by blast

lemma eraserSettings_sel [simp]:
  "size_s eraserSettings = 20" "roundness eraserSettings = 1" "spacing eraserSettings = 0"
  "roughness eraserSettings = 0" "taper eraserSettings = 0" "hardness eraserSettings = 1"
  "isEraser eraserSettings = True"
  by (simp_all add: eraserSettings_def scenarioSettings_def)

lemma eraser_example_run:
  "drawStroke (constRandom 0.5) eraserSettings (sample 100 0 0.5 100) (penDown (sample 0 0 0.5 0)) =
     Some (Returns (strokeEnd (penDown (sample 0 0 0.5 0))
       (plainStroke eraserSettings (sample 0 0 0.5 0) (sample 100 0 0.5 100) 30 67 0
          (strokeStart eraserSettings 30 freshContext (penDown (sample 0 0 0.5 0))))))"
  by (rule scenario_run) (simp_all add: constRandom_def)

lemma eraser_example_geometry:
  "strokeGeometry eraserSettings (sample 0 0 0.5 0) (sample 100 0 0.5 100) = (30, 1, 100)"
  by (rule scenario_geometry) simp_all

lemma eraser_example_steps:
  "strokeSteps 100 (strokeStepSize eraserSettings 30) = enat 67"
  by (rule scenario_steps) simp

theorem eraser_not_in_vector_log_witness:
  "isEraser eraserSettings
   \<and> drawingCanvas (penDown (sample 0 0 0.5 0)) = Some freshContext
   \<and> lastPointRef (penDown (sample 0 0 0.5 0)) = Some (sample 0 0 0.5 0)
   \<and> map_option drawingSvgRef
        (returned (drawStroke (constRandom 0.5) eraserSettings (sample 100 0 0.5 100)
           (penDown (sample 0 0 0.5 0)))) = Some []
   \<and> map_option (\<lambda>s. map op_composite (rasterOf s))
        (returned (drawStroke (constRandom 0.5) eraserSettings (sample 100 0 0.5 100)
           (penDown (sample 0 0 0.5 0)))) = Some (replicate 67 DestinationOut)
   \<and> map_option svgContent
        (returned (strokeSession (constRandom 0.5) eraserSettings [sample 100 0 0.5 100]
           (penDown (sample 0 0 0.5 0)))) = Some []"
proof -
  let ?s = "penDown (sample 0 0 0.5 0)"
  let ?X = "strokeEnd ?s
       (plainStroke eraserSettings (sample 0 0 0.5 0) (sample 100 0 0.5 100) 30 67 0
          (strokeStart eraserSettings 30 freshContext ?s))"
  let ?X' = "?X\<lparr>lastPointRef := Some (sample 100 0 0.5 100)\<rparr>"
  have e: "isEraser eraserSettings" by simp
  have c: "drawingCanvas ?s = Some freshContext" and lp: "lastPointRef ?s = Some (sample 0 0 0.5 0)"
    by simp_all
  note run = eraser_example_run
  have ses: "strokeSession (constRandom 0.5) eraserSettings [sample 100 0 0.5 100] ?s
      = Some (Returns ?X')"
    unfolding strokeSession.simps moveTo_def run by simp
  note t = eraser_not_in_vector_log [OF e, of "constRandom 0.5" "sample 100 0 0.5 100" ?s
      "Returns ?X" ?X freshContext "sample 0 0 0.5 0" "[sample 100 0 0.5 100]" "Returns ?X'"]
  from t [THEN conjunct1, rule_format, OF run]
  have 1: "drawingSvgRef ?X = []" by simp
  from t [THEN conjunct2, THEN conjunct1, rule_format, OF conjI [OF run conjI [OF c lp]]]
  obtain n where n: "strokeSteps (snd (snd (strokeGeometry eraserSettings (sample 0 0 0.5 0)
                        (sample 100 0 0.5 100))))
                 (strokeStepSize eraserSettings (fst (strokeGeometry eraserSettings
                        (sample 0 0 0.5 0) (sample 100 0 0.5 100)))) = enat n"
    and comp: "map op_composite (rasterOf ?X)
                 = map op_composite (pixels freshContext) @ replicate n DestinationOut"
    by blast
  from n have "n = 67" unfolding eraser_example_geometry by (simp add: eraser_example_steps)
  with comp have 2: "map op_composite (rasterOf ?X) = replicate 67 DestinationOut"
    by (simp add: freshContext_def)
  from t [THEN conjunct2, THEN conjunct2, rule_format, OF ses]
  have 3: "svgContent ?X' = []" by (simp add: svgContent_def)
  have r1: "map_option drawingSvgRef
        (returned (drawStroke (constRandom 0.5) eraserSettings (sample 100 0 0.5 100) ?s)) = Some []"
    unfolding run returned_Returns option.map 1 ..
  have r2: "map_option (\<lambda>s. map op_composite (rasterOf s))
        (returned (drawStroke (constRandom 0.5) eraserSettings (sample 100 0 0.5 100) ?s))
          = Some (replicate 67 DestinationOut)"
    unfolding run returned_Returns option.map 2 ..
  have r3: "map_option svgContent
        (returned (strokeSession (constRandom 0.5) eraserSettings [sample 100 0 0.5 100] ?s))
          = Some []"
    unfolding ses returned_Returns option.map 3 ..
  from e c lp r1 r2 r3 show ?thesis by (intro conjI)
qed

theorem drawStroke_resets_context_witness:
  "strokeWellFormed eraserSettings (sample 100 0 0.5 100) (penDown (sample 0 0 0.5 0))
   \<and> lastPointRef (penDown (sample 0 0 0.5 0)) \<noteq> None
   \<and> map_option ctxClean
        (returned (drawStroke (constRandom 0.5) eraserSettings (sample 100 0 0.5 100)
           (penDown (sample 0 0 0.5 0)))) = Some True"
proof -
  let ?s = "penDown (sample 0 0 0.5 0)"
  have wf: "strokeWellFormed eraserSettings (sample 100 0 0.5 100) ?s"
    unfolding strokeWellFormed_def penDown_sel option.case eraser_example_geometry prod.case
      eraser_example_steps
    by simp
  have lp: "lastPointRef ?s \<noteq> None" by simp
  from drawStroke_resets_context [of "constRandom 0.5" eraserSettings "sample 100 0 0.5 100" ?s,
      THEN conjunct2, rule_format, OF wf]
  obtain s'' where run: "drawStroke (constRandom 0.5) eraserSettings (sample 100 0 0.5 100) ?s
      = Some (Returns s'')"
    by blast
  from drawStroke_resets_context [of "constRandom 0.5" eraserSettings "sample 100 0 0.5 100" ?s s'',
      THEN conjunct1, rule_format, OF conjI [OF run disjI1 [OF lp]]]
  have clean: "ctxClean s''" .
  have "map_option ctxClean
        (returned (drawStroke (constRandom 0.5) eraserSettings (sample 100 0 0.5 100) ?s)) = Some True"
    unfolding run returned_Returns option.map using clean by simp
  with wf lp show ?thesis by (intro conjI)
qed

section \<open>Properties of the text animation\<close>

lemma particleSize_pos: "0 < particleSize w"
  by (cases w) (simp_all add: particleSize_def)

lemma textRoundness_pos: "0 < textRoundness mode style"
  by (simp add: textRoundness_def)

lemma stampParticle_stamps:
  assumes r: "\<forall>k. 0 \<le> rnd k \<and> rnd k < 1"
  shows "\<exists>a'. stampParticle rnd mode settings p a = Returns a'
     \<and> particleIndex a' = particleIndex a + 1
     \<and> stampCount a' = stampCount a + 1 \<and> logCount a' = logCount a + 1"
proof -
  let ?k = "randomCalls (layer a)"
  let ?cps = "particleSize (weightOption settings) * (0.85 + rnd (?k + 2) * 0.3)"
  have "0 \<le> rnd (?k + 2)" using r by blast
  then have "0 < 0.85 + rnd (?k + 2) * 0.3" by simp
  then have cps: "0 < ?cps" using particleSize_pos by (simp add: zero_less_mult_iff)
  then have rx: "\<not> ?cps / 2 < 0" by simp
  have "0 < (?cps / 2) * textRoundness mode (fontStyle settings)"
    using cps textRoundness_pos by (simp add: zero_less_mult_iff)
  then have ry: "\<not> (?cps / 2) * textRoundness mode (fontStyle settings) < 0" by simp
  show ?thesis
    using rx ry
    by (simp add: stampParticle_def Let_def drawAndRecordEllipse_def fillEllipse_def
        setGlobalAlpha_def stampCount_def logCount_def)
qed

lemma animateParticle_dropped:
  assumes "mode = GENERATE \<and> fontStyle settings = BRUSH \<and> rnd (randomCalls (layer a)) < 0.1"
  shows "animateParticle rnd mode settings p a =
     Returns (a\<lparr>layer := (layer a)\<lparr>randomCalls := randomCalls (layer a) + 1\<rparr>,
               particleIndex := particleIndex a + 1\<rparr>)"
  using assms by (simp add: animateParticle_def Let_def)

lemma animateParticle_stamped:
  assumes r: "\<forall>k. 0 \<le> rnd k \<and> rnd k < 1"
    and nd: "\<not> (mode = GENERATE \<and> fontStyle settings = BRUSH \<and> rnd (randomCalls (layer a)) < 0.1)"
  shows "\<exists>a'. animateParticle rnd mode settings p a = Returns a'
     \<and> particleIndex a' = particleIndex a + 1
     \<and> stampCount a' = stampCount a + 1 \<and> logCount a' = logCount a + 1"
proof (cases "mode = GENERATE \<and> fontStyle settings = BRUSH")
  case False
  then have "animateParticle rnd mode settings p a = stampParticle rnd mode settings p a"
    by (simp only: animateParticle_def if_False)
  then show ?thesis using stampParticle_stamps [OF r, of mode settings p a] by simp
next
  case True
  let ?a1 = "a\<lparr>layer := (layer a)\<lparr>randomCalls := randomCalls (layer a) + 1\<rparr>\<rparr>"
  from True nd have "animateParticle rnd mode settings p a = stampParticle rnd mode settings p ?a1"
    by (simp add: animateParticle_def Let_def)
  then show ?thesis using stampParticle_stamps [OF r, of mode settings p ?a1]
    by (simp add: stampCount_def logCount_def)
qed

lemma animateBatch_all_stamped:
  assumes r: "\<forall>k. 0 \<le> rnd k \<and> rnd k < 1"
    and nb: "\<not> (mode = GENERATE \<and> fontStyle settings = BRUSH)"
  shows "particleIndex a \<le> length particles \<Longrightarrow>
     \<exists>a'. animateBatch rnd mode settings particles n a = Returns a'
       \<and> particleIndex a' = min (particleIndex a + n) (length particles)
       \<and> stampCount a' = stampCount a + (particleIndex a' - particleIndex a)
       \<and> logCount a' = logCount a + (particleIndex a' - particleIndex a)"
proof (induction n arbitrary: a)
  case 0
  then show ?case by simp
next
  case (Suc n)
  show ?case
  proof (cases "particleIndex a \<ge> length particles")
    case True
    with Suc.prems show ?thesis by simp
  next
    case False
    from nb have nd: "\<not> (mode = GENERATE \<and> fontStyle settings = BRUSH
        \<and> rnd (randomCalls (layer a)) < 0.1)" by blast
    from animateParticle_stamped [OF r nd, of "particles ! particleIndex a"]
    obtain a1 where 1: "animateParticle rnd mode settings (particles ! particleIndex a) a = Returns a1"
      and i1: "particleIndex a1 = particleIndex a + 1"
      and s1: "stampCount a1 = stampCount a + 1" and l1: "logCount a1 = logCount a + 1"
      by blast
    from False i1 have le: "particleIndex a1 \<le> length particles" by simp
    from Suc.IH [OF le] obtain a' where 2: "animateBatch rnd mode settings particles n a1 = Returns a'"
      and i2: "particleIndex a' = min (particleIndex a1 + n) (length particles)"
      and s2: "stampCount a' = stampCount a1 + (particleIndex a' - particleIndex a1)"
      and l2: "logCount a' = logCount a1 + (particleIndex a' - particleIndex a1)"
      by blast
    have "animateBatch rnd mode settings particles (Suc n) a = Returns a'"
      using False 1 2 by (simp add: andThen_def)
    moreover have "particleIndex a' = min (particleIndex a + Suc n) (length particles)"
      using i1 i2 by simp
    moreover have "particleIndex a1 \<le> particleIndex a'" using i2 le by simp
    then have "stampCount a' = stampCount a + (particleIndex a' - particleIndex a)"
      "logCount a' = logCount a + (particleIndex a' - particleIndex a)"
      using s1 s2 l1 l2 i1 by simp_all
    ultimately show ?thesis by blast
  qed
qed

lemma animateText_all_stamped:
  assumes r: "\<forall>k. 0 \<le> rnd k \<and> rnd k < 1"
    and nb: "\<not> (mode = GENERATE \<and> fontStyle settings = BRUSH)"
    and lt: "particleIndex a < length particles"
  shows "\<exists>a'. animateText rnd mode settings particles a = Returns a'
       \<and> particleIndex a' = min (particleIndex a + batchSize) (length particles)
       \<and> stampCount a' = stampCount a + (particleIndex a' - particleIndex a)
       \<and> logCount a' = logCount a + (particleIndex a' - particleIndex a)"
proof -
  let ?a0 = "a\<lparr>layer := (layer a)\<lparr>ctx :=
      (setShadowBlur (if weightOption settings \<noteq> THIN then 1 else 0) (ctx (layer a)))
         \<lparr>shadowColor := color settings\<rparr>\<rparr>\<rparr>"
  have le: "particleIndex ?a0 \<le> length particles" using lt by simp
  have same: "stampCount ?a0 = stampCount a" "logCount ?a0 = logCount a"
    by (simp_all add: stampCount_def logCount_def setShadowBlur_def)
  from animateBatch_all_stamped [OF r nb le, of batchSize]
  obtain b where b: "animateBatch rnd mode settings particles batchSize ?a0 = Returns b"
    and ib: "particleIndex b = min (particleIndex a + batchSize) (length particles)"
    and sb: "stampCount b = stampCount a + (particleIndex b - particleIndex a)"
    and lb: "logCount b = logCount a + (particleIndex b - particleIndex a)"
    unfolding same by auto
  let ?a' = "b\<lparr>layer := (layer b)\<lparr>ctx := setShadowBlur 0 (ctx (layer b))\<rparr>\<rparr>"
  have "animateText rnd mode settings particles a = Returns ?a'"
    using lt b by (simp add: animateText_def Let_def)
  moreover have "particleIndex ?a' = particleIndex b" "stampCount ?a' = stampCount b"
    "logCount ?a' = logCount b"
    by (simp_all add: stampCount_def logCount_def setShadowBlur_def)
  ultimately show ?thesis using ib sb lb by auto
qed

lemma runAnimation_all_stamped:
  assumes r: "\<forall>k. 0 \<le> rnd k \<and> rnd k < 1"
    and nb: "\<not> (mode = GENERATE \<and> fontStyle settings = BRUSH)"
  shows "\<exists>a'. runAnimation rnd mode settings particles a = Returns a'
       \<and> particleIndex a' = max (particleIndex a) (length particles)
       \<and> stampCount a' = stampCount a + (length particles - particleIndex a)
       \<and> logCount a' = logCount a + (length particles - particleIndex a)"
proof (induction "length particles - particleIndex a" arbitrary: a rule: less_induct)
  case less
  show ?case
  proof (cases "particleIndex a \<ge> length particles")
    case True
    then show ?thesis by (simp add: max_def)
  next
    case False
    then have lt: "particleIndex a < length particles" by simp
    from animateText_all_stamped [OF r nb lt]
    obtain a1 where 1: "animateText rnd mode settings particles a = Returns a1"
      and i1: "particleIndex a1 = min (particleIndex a + batchSize) (length particles)"
      and s1: "stampCount a1 = stampCount a + (particleIndex a1 - particleIndex a)"
      and l1: "logCount a1 = logCount a + (particleIndex a1 - particleIndex a)"
      by blast
    have gt: "particleIndex a < particleIndex a1" and le1: "particleIndex a1 \<le> length particles"
      using i1 lt by (simp_all add: batchSize_def)
    then have dec: "length particles - particleIndex a1 < length particles - particleIndex a"
      using lt by simp
    from less [OF dec] obtain a' where 2: "runAnimation rnd mode settings particles a1 = Returns a'"
      and i2: "particleIndex a' = max (particleIndex a1) (length particles)"
      and s2: "stampCount a' = stampCount a1 + (length particles - particleIndex a1)"
      and l2: "logCount a' = logCount a1 + (length particles - particleIndex a1)"
      by blast
    have "runAnimation rnd mode settings particles a = Returns a'"
      using False 1 2 by simp
    moreover have "particleIndex a' = max (particleIndex a) (length particles)"
      using i2 le1 lt by (simp add: max_def)
    moreover have "stampCount a' = stampCount a + (length particles - particleIndex a)"
      "logCount a' = logCount a + (length particles - particleIndex a)"
      using s1 s2 l1 l2 gt le1 by simp_all
    ultimately show ?thesis by blast
  qed
qed

text \<open>
  Claim C4, as amended.  With random numbers in \<open>[0, 1)\<close>, a dequeued particle is dropped
  (the index moves on, nothing is painted and nothing is logged) exactly when the mode is
  \<open>GENERATE\<close>, the font style is \<open>BRUSH\<close> and the random number of the drop test is below
  \<open>0.1\<close>, whatever the weight option, \<open>THIN\<close> included; in every other case the particle is
  stamped once, on the raster and in the vector log.  For every style other than \<open>BRUSH\<close>
  the whole animation returns with every particle of the queue stamped.
\<close>

theorem particle_drop_rule:
  assumes "\<forall>k. 0 \<le> rnd k \<and> rnd k < 1"
  shows "(mode = GENERATE \<and> fontStyle settings = BRUSH \<and> rnd (randomCalls (layer a)) < 0.1 \<longrightarrow>
           animateParticle rnd mode settings p a =
             Returns (a\<lparr>layer := (layer a)\<lparr>randomCalls := randomCalls (layer a) + 1\<rparr>,
                       particleIndex := particleIndex a + 1\<rparr>))
     \<and> (\<not> (mode = GENERATE \<and> fontStyle settings = BRUSH \<and> rnd (randomCalls (layer a)) < 0.1) \<longrightarrow>
           (\<exists>a'. animateParticle rnd mode settings p a = Returns a'
              \<and> particleIndex a' = particleIndex a + 1
              \<and> stampCount a' = stampCount a + 1 \<and> logCount a' = logCount a + 1))
     \<and> (\<not> (mode = GENERATE \<and> fontStyle settings = BRUSH) \<longrightarrow>
           (\<exists>a'. runAnimation rnd mode settings particles a = Returns a'
              \<and> particleIndex a' = max (particleIndex a) (length particles)
              \<and> stampCount a' = stampCount a + (length particles - particleIndex a)
              \<and> logCount a' = logCount a + (length particles - particleIndex a)))"
  using animateParticle_dropped [of mode settings rnd a p]
    animateParticle_stamped [OF assms, of mode settings a p]
    runAnimation_all_stamped [OF assms, of mode settings particles a]
  by blast

lemma textStart_sel [simp]:
  "randomCalls (layer textStart) = 0" "particleIndex textStart = 0"
  "stampCount textStart = 0" "logCount textStart = 0"
  by (simp_all add: textStart_def stampCount_def logCount_def freshContext_def)

theorem particle_drop_rule_witness:
  "(\<forall>k. 0 \<le> constRandom 0.05 k \<and> constRandom 0.05 k < 1)
   \<and> fontStyle scenarioSettings = BRUSH \<and> weightOption scenarioSettings = NORMAL
   \<and> constRandom 0.05 (randomCalls (layer textStart)) < 0.1
   \<and> stampCount (outcomeState (animateParticle (constRandom 0.05) GENERATE scenarioSettings
         (particleAt 10 10) textStart)) = 0
   \<and> particleIndex (outcomeState (animateParticle (constRandom 0.05) GENERATE scenarioSettings
         (particleAt 10 10) textStart)) = 1
   \<and> fontStyle penNormal = PEN
   \<and> stampCount (outcomeState (animateParticle (constRandom 0.05) GENERATE penNormal
         (particleAt 10 10) textStart)) = 1
   \<and> stampCount (outcomeState (runAnimation (constRandom 0.05) GENERATE penNormal
         [particleAt 10 10, particleAt 12 10, particleAt 14 10] textStart)) = 3
   \<and> particleIndex (outcomeState (runAnimation (constRandom 0.05) GENERATE penNormal
         [particleAt 10 10, particleAt 12 10, particleAt 14 10] textStart)) = 3"
proof -
  have r: "\<forall>k. 0 \<le> constRandom 0.05 k \<and> constRandom 0.05 k < 1"
    by (rule constRandom_ok) simp_all
  have b: "fontStyle scenarioSettings = BRUSH" "weightOption scenarioSettings = NORMAL"
    by (simp_all add: scenarioSettings_def)
  have p: "fontStyle penNormal = PEN" by (simp add: penNormal_def)
  have low: "constRandom 0.05 (randomCalls (layer textStart)) < 0.1" by (simp add: constRandom_def)
  note t1 = particle_drop_rule [OF r, of GENERATE scenarioSettings textStart "particleAt 10 10"]
  note t2 = particle_drop_rule [OF r, of GENERATE penNormal textStart "particleAt 10 10"
      "[particleAt 10 10, particleAt 12 10, particleAt 14 10]"]
  from t1 [THEN conjunct1, rule_format, OF conjI [OF refl conjI [OF b(1) low]]]
  have d: "stampCount (outcomeState (animateParticle (constRandom 0.05) GENERATE scenarioSettings
         (particleAt 10 10) textStart)) = 0"
    "particleIndex (outcomeState (animateParticle (constRandom 0.05) GENERATE scenarioSettings
         (particleAt 10 10) textStart)) = 1"
    by (simp_all add: stampCount_def textStart_def freshContext_def)
  have np: "\<not> (GENERATE = GENERATE \<and> fontStyle penNormal = BRUSH
      \<and> constRandom 0.05 (randomCalls (layer textStart)) < 0.1)"
    and nb: "\<not> (GENERATE = GENERATE \<and> fontStyle penNormal = BRUSH)"
    using p by simp_all
  from t2 [THEN conjunct2, THEN conjunct1, rule_format, OF np]
  have s: "stampCount (outcomeState (animateParticle (constRandom 0.05) GENERATE penNormal
         (particleAt 10 10) textStart)) = 1"
    by auto
  from t2 [THEN conjunct2, THEN conjunct2, rule_format, OF nb]
  have a: "stampCount (outcomeState (runAnimation (constRandom 0.05) GENERATE penNormal
         [particleAt 10 10, particleAt 12 10, particleAt 14 10] textStart)) = 3"
    "particleIndex (outcomeState (runAnimation (constRandom 0.05) GENERATE penNormal
         [particleAt 10 10, particleAt 12 10, particleAt 14 10] textStart)) = 3"
    by auto
  from r b low d p s a show ?thesis by (intro conjI)
qed

text \<open>
  Claim C4 as stated (no drop when the weight is \<open>THIN\<close>) fails for the \<open>BRUSH\<close> style with
  the \<open>THIN\<close> weight: a particle whose drop test draws \<open>0.05\<close> is dequeued and not stamped.
\<close>

theorem particle_drop_rule_counterexample:
  "fontStyle brushThin = BRUSH \<and> weightOption brushThin = THIN
   \<and> animateParticle (constRandom 0.05) GENERATE brushThin (particleAt 10 10) textStart
       = Returns (textStart\<lparr>layer := (layer textStart)\<lparr>randomCalls := 1\<rparr>, particleIndex := 1\<rparr>)
   \<and> stampCount (textStart\<lparr>layer := (layer textStart)\<lparr>randomCalls := 1\<rparr>, particleIndex := 1\<rparr>) = 0
   \<and> logCount (textStart\<lparr>layer := (layer textStart)\<lparr>randomCalls := 1\<rparr>, particleIndex := 1\<rparr>) = 0"
  by (simp add: brushThin_def scenarioSettings_def animateParticle_def Let_def constRandom_def
      textStart_def stampCount_def logCount_def freshContext_def)

section \<open>Properties of the velocity\<close>

lemma roundHalfEven_le: "q \<le> real_of_int n \<Longrightarrow> roundHalfEven q \<le> n"
proof -
  assume a: "q \<le> real_of_int n"
  have f: "\<lfloor>q\<rfloor> \<le> n" using a by (simp add: floor_le_iff)
  show ?thesis
  proof (cases "\<lfloor>q\<rfloor> = n")
    case True
    then have "q = real_of_int n" using a by (metis of_int_floor_le order_antisym)
    then show ?thesis by (simp add: roundHalfEven_def)
  next
    case False
    with f have "\<lfloor>q\<rfloor> + 1 \<le> n" by simp
    then show ?thesis using f by (simp add: roundHalfEven_def Let_def)
  qed
qed

lemma roundHalfEven_ge: "real_of_int n \<le> q \<Longrightarrow> n \<le> roundHalfEven q"
proof -
  assume a: "real_of_int n \<le> q"
  have f: "n \<le> \<lfloor>q\<rfloor>" using a by (simp add: le_floor_iff)
  then show ?thesis by (simp add: roundHalfEven_def Let_def)
qed

lemma roundHalfEven_of_int: "roundHalfEven (real_of_int n) = n"
  by (simp add: roundHalfEven_def)

lemma ulp_pos: "0 < ulp r"
  by (simp add: ulp_def)

lemma exponentOf_ge: "- 1022 \<le> exponentOf r"
  by (simp add: exponentOf_def)

lemma exponentOf_le:
  assumes "r \<noteq> 0" "\<bar>r\<bar> \<le> 2 powr real_of_int k" "- 1022 \<le> k"
  shows "exponentOf r \<le> k"
proof -
  have "log 2 \<bar>r\<bar> \<le> log 2 (2 powr real_of_int k)"
    using assms by (simp del: log_powr_cancel)
  then have "log 2 \<bar>r\<bar> \<le> real_of_int k" by simp
  then have "\<lfloor>log 2 \<bar>r\<bar>\<rfloor> \<le> k" by (simp add: floor_le_iff)
  then show ?thesis using assms by (simp add: exponentOf_def)
qed

lemma exponentOf_eq:
  assumes "2 powr real_of_int k \<le> \<bar>r\<bar>" "\<bar>r\<bar> < 2 powr real_of_int (k + 1)" "- 1022 \<le> k"
  shows "exponentOf r = k"
proof -
  have pos: "0 < \<bar>r\<bar>" using assms(1) by (smt (verit) powr_gt_zero)
  have "\<lfloor>log 2 \<bar>r\<bar>\<rfloor> = k"
    using floor_log_eq_powr_iff [of "\<bar>r\<bar>" 2 k] pos assms by simp
  then show ?thesis using assms by (simp add: exponentOf_def)
qed

lemma exponentOf_lower:
  assumes "2 powr real_of_int k \<le> \<bar>r\<bar>" "- 1022 \<le> k"
  shows "k \<le> exponentOf r \<and> 2 powr real_of_int (exponentOf r) \<le> \<bar>r\<bar>"
proof -
  have pos: "0 < \<bar>r\<bar>" using assms(1) by (smt (verit) powr_gt_zero)
  let ?e = "\<lfloor>log 2 \<bar>r\<bar>\<rfloor>"
  have b: "2 powr real_of_int ?e \<le> \<bar>r\<bar>"
    using floor_log_eq_powr_iff [of "\<bar>r\<bar>" 2 ?e] pos by simp
  have "real_of_int k = log 2 (2 powr real_of_int k)" by simp
  also have "\<dots> \<le> log 2 \<bar>r\<bar>"
    using assms(1) pos log_le_cancel_iff [of 2 "2 powr real_of_int k" "\<bar>r\<bar>"] by simp
  finally have "k \<le> ?e" by (simp add: le_floor_iff)
  then have e: "exponentOf r = ?e" using assms(2) by (simp add: exponentOf_def)
  show ?thesis unfolding e using b \<open>k \<le> ?e\<close> by simp
qed


lemma powr_int_nat: "0 \<le> k \<Longrightarrow> 2 powr real_of_int k = real_of_int (2 ^ nat k)"
proof -
  assume "0 \<le> k"
  then have "real_of_int k = real (nat k)" by simp
  then have "2 powr real_of_int k = 2 powr real (nat k)" by (simp only:)
  also have "\<dots> = 2 ^ nat k" by (rule powr_realpow) simp
  also have "\<dots> = real_of_int (2 ^ nat k)" by simp
  finally show ?thesis .
qed

lemma powr_int_numeral: "2 powr real_of_int (int n) = 2 ^ n"
proof -
  have "real_of_int (int n) = real n" by simp
  then have "2 powr real_of_int (int n) = 2 powr real n" by (simp only:)
  also have "\<dots> = 2 ^ n" by (rule powr_realpow) simp
  finally show ?thesis .
qed

lemma threshold_above: "k \<le> 1023 \<Longrightarrow> 2 powr real_of_int k < overflowThreshold"
proof -
  assume k: "k \<le> 1023"
  have "2 powr real_of_int k \<le> 2 powr real_of_int (int 1023)"
    using k by (intro powr_mono) simp_all
  also have "\<dots> = 2 ^ 1023" by (rule powr_int_numeral)
  also have "\<dots> < overflowThreshold"
  proof -
    have "(2::real) ^ Suc 1023 = 2 * 2 ^ 1023" by (rule power_Suc)
    moreover have "Suc 1023 = 1024" by simp
    ultimately have a: "(2::real) ^ 1024 = 2 * 2 ^ 1023" by (simp only:)
    have b: "(2::real) ^ 970 < 2 ^ 1023" by (rule power_strict_increasing) simp_all
    have "\<And>x y z :: real. z = 2 * x \<Longrightarrow> y < x \<Longrightarrow> x < z - y" by linarith
    from this [OF a b] show ?thesis by (simp only: overflowThreshold_def)
  qed
  finally show ?thesis .
qed

lemma roundValue_abs_le:
  assumes "r \<noteq> 0" "\<bar>r\<bar> \<le> 2 powr real_of_int k" "- 1022 \<le> k"
  shows "\<bar>real_of_int (roundHalfEven (r / ulp r)) * ulp r\<bar> \<le> 2 powr real_of_int k"
proof -
  let ?e = "exponentOf r"
  have e: "?e \<le> k" by (rule exponentOf_le [OF assms])
  define n where "n = (2::int) ^ nat (k - ?e + 52)"
  have n: "real_of_int n = 2 powr real_of_int (k - ?e + 52)"
    using e powr_int_nat [of "k - ?e + 52"] by (simp add: n_def)
  have prod: "real_of_int n * ulp r = 2 powr real_of_int k"
    unfolding n ulp_def by (simp add: powr_add [symmetric])
  have q1: "r / ulp r \<le> real_of_int n"
    using assms(2) prod ulp_pos [of r] by (simp add: pos_divide_le_eq)
  have q2: "real_of_int (- n) \<le> r / ulp r"
    using assms(2) prod ulp_pos [of r] by (simp add: pos_le_divide_eq)
  from roundHalfEven_le [OF q1] roundHalfEven_ge [OF q2]
  have "\<bar>roundHalfEven (r / ulp r)\<bar> \<le> n" by simp
  then have "\<bar>real_of_int (roundHalfEven (r / ulp r))\<bar> \<le> real_of_int n"
    by (metis of_int_abs of_int_le_iff)
  then have "\<bar>real_of_int (roundHalfEven (r / ulp r))\<bar> * ulp r \<le> real_of_int n * ulp r"
    using ulp_pos [of r] by (simp add: mult_right_mono)
  then show ?thesis using ulp_pos [of r] by (simp add: abs_mult prod)
qed

lemma roundValue_nonneg:
  assumes "0 \<le> r"
  shows "0 \<le> real_of_int (roundHalfEven (r / ulp r)) * ulp r"
proof -
  have "real_of_int 0 \<le> r / ulp r" using assms ulp_pos [of r] by simp
  from roundHalfEven_ge [OF this] show ?thesis using ulp_pos [of r] by simp
qed

lemma roundValue_nonpos:
  assumes "r \<le> 0"
  shows "real_of_int (roundHalfEven (r / ulp r)) * ulp r \<le> 0"
proof -
  have "r / ulp r \<le> real_of_int 0" using assms ulp_pos [of r] by (simp add: divide_nonpos_pos)
  from roundHalfEven_le [OF this] show ?thesis
    using ulp_pos [of r] by (simp add: mult_nonpos_nonneg)
qed

lemma roundValue_ge:
  assumes "2 powr real_of_int k \<le> r" "- 1022 \<le> k"
  shows "2 powr real_of_int k \<le> real_of_int (roundHalfEven (r / ulp r)) * ulp r"
proof -
  let ?e = "exponentOf r"
  have pos: "0 < r" using assms(1) by (smt (verit) powr_gt_zero)
  then have abs: "\<bar>r\<bar> = r" by simp
  from exponentOf_lower [of k r] assms abs
  have ke: "k \<le> ?e" and er: "2 powr real_of_int ?e \<le> r" by simp_all
  define n where "n = (2::int) ^ 52"
  have n: "real_of_int n = 2 powr real_of_int 52"
    using powr_int_nat [of 52] by (simp add: n_def)
  have "2 powr real_of_int 52 * 2 powr real_of_int (?e - 52)
      = 2 powr (real_of_int 52 + real_of_int (?e - 52))"
    by (simp only: powr_add)
  also have "real_of_int 52 + real_of_int (?e - 52) = real_of_int ?e" by simp
  finally have prod: "real_of_int n * ulp r = 2 powr real_of_int ?e"
    by (simp only: n ulp_def)
  have "real_of_int n \<le> r / ulp r"
    using er prod ulp_pos [of r] by (simp add: pos_le_divide_eq)
  from roundHalfEven_ge [OF this]
  have "real_of_int n * ulp r \<le> real_of_int (roundHalfEven (r / ulp r)) * ulp r"
    using ulp_pos [of r] by (simp add: mult_right_mono)
  moreover have "2 powr real_of_int k \<le> 2 powr real_of_int ?e"
    using ke by (intro powr_mono) simp_all
  ultimately show ?thesis unfolding prod by linarith
qed

text \<open>What rounding keeps: bounds by powers of two, and the sign.\<close>

lemma roundDouble_bounded:
  assumes "\<bar>r\<bar> \<le> 2 powr real_of_int k" "- 1022 \<le> k" "k \<le> 1023"
  shows "\<exists>v. roundDouble r = Fin v \<and> \<bar>v\<bar> \<le> 2 powr real_of_int k
           \<and> (0 \<le> r \<longrightarrow> 0 \<le> v) \<and> (r \<le> 0 \<longrightarrow> v \<le> 0)"
proof (cases "r = 0")
  case True
  then show ?thesis by (simp add: roundDouble_def)
next
  case False
  have "\<bar>r\<bar> < overflowThreshold" using assms(1) threshold_above [OF assms(3)] by simp
  then have "\<not> r \<ge> overflowThreshold" "\<not> r \<le> - overflowThreshold" by linarith+
  then have "roundDouble r = Fin (real_of_int (roundHalfEven (r / ulp r)) * ulp r)"
    using False by (simp add: roundDouble_def)
  then show ?thesis
    using roundValue_abs_le [OF False assms(1,2)] roundValue_nonneg [of r] roundValue_nonpos [of r]
    by simp
qed

lemma roundDouble_ge:
  assumes "2 powr real_of_int k \<le> r" "- 1022 \<le> k"
  shows "roundDouble r = PosInf \<or> (\<exists>v. roundDouble r = Fin v \<and> 2 powr real_of_int k \<le> v)"
proof -
  have pos: "0 < r" using assms(1) by (smt (verit) powr_gt_zero)
  show ?thesis
  proof (cases "r \<ge> overflowThreshold")
    case True
    then show ?thesis using pos by (simp add: roundDouble_def)
  next
    case False
    moreover have "0 < overflowThreshold"
      using threshold_above [of 0] by (smt (verit) powr_gt_zero)
    ultimately have "roundDouble r = Fin (real_of_int (roundHalfEven (r / ulp r)) * ulp r)"
      using pos by (simp add: roundDouble_def)
    then show ?thesis using roundValue_ge [OF assms] by simp
  qed
qed


lemma twoTo_pos: "0 < twoTo k"
  by (simp add: twoTo_def)

lemma twoTo_mult: "twoTo a * twoTo b = twoTo (a + b)"
  unfolding twoTo_def by (simp only: powr_add [symmetric] of_int_add)

lemma twoTo_mono: "a \<le> b \<Longrightarrow> twoTo a \<le> twoTo b"
  unfolding twoTo_def by (intro powr_mono) simp_all

lemma twoTo_nat: "twoTo (int n) = 2 ^ n"
  unfolding twoTo_def by (rule powr_int_numeral)

lemma twoTo_zero: "twoTo 0 = 1"
  using twoTo_nat [of 0] by simp

lemma twoTo_double: "twoTo a + twoTo a = twoTo (a + 1)"
proof -
  have "twoTo 1 = 2" using twoTo_nat [of 1] by simp
  then have "twoTo (a + 1) = twoTo a * 2" using twoTo_mult [of a 1] by simp
  then show ?thesis by simp
qed


lemma roundDouble_within:
  assumes "\<bar>r\<bar> \<le> twoTo k" "- 1022 \<le> k" "k \<le> 1023"
  shows "\<exists>v. roundDouble r = Fin v \<and> \<bar>v\<bar> \<le> twoTo k
           \<and> (0 \<le> r \<longrightarrow> 0 \<le> v) \<and> (r \<le> 0 \<longrightarrow> v \<le> 0)"
  using assms unfolding twoTo_def by (rule roundDouble_bounded)

lemma roundDouble_above:
  assumes "twoTo k \<le> r" "- 1022 \<le> k"
  shows "roundDouble r = PosInf \<or> (\<exists>v. roundDouble r = Fin v \<and> twoTo k \<le> v)"
  using assms unfolding twoTo_def by (rule roundDouble_ge)

lemma threshold_pos: "0 < overflowThreshold"
  using threshold_above [of 0] by (smt (verit) powr_gt_zero)

lemma threshold_below: "overflowThreshold \<le> twoTo 1024"
proof -
  have "twoTo (int 1024) = 2 ^ 1024" by (rule twoTo_nat)
  moreover have g: "\<And>x y :: real. 0 \<le> y \<Longrightarrow> x - y \<le> x" by simp
  have "(2::real) ^ 1024 - 2 ^ 970 \<le> 2 ^ 1024" by (rule g) simp
  ultimately show ?thesis by (simp only: overflowThreshold_def of_nat_numeral)
qed

lemma roundDouble_overflow: "twoTo 1024 \<le> r \<Longrightarrow> roundDouble r = PosInf"
  using threshold_below threshold_pos by (simp add: roundDouble_def)

lemma roundDouble_twoTo:
  assumes "- 1022 \<le> k" "k \<le> 1023"
  shows "roundDouble (twoTo k) = Fin (twoTo k)"
proof -
  from roundDouble_within [of "twoTo k" k] assms twoTo_pos [of k]
  obtain v where v: "roundDouble (twoTo k) = Fin v" "\<bar>v\<bar> \<le> twoTo k" by auto
  from roundDouble_above [of k "twoTo k"] assms v have "twoTo k \<le> v" by simp
  with v show ?thesis by simp
qed






lemma roundDouble_int:
  assumes "\<bar>real_of_int n\<bar> \<le> twoTo 52"
  shows "roundDouble (real_of_int n) = Fin (real_of_int n)"
proof (cases "n = 0")
  case True
  then show ?thesis by (simp add: roundDouble_def)
next
  case False
  let ?r = "real_of_int n"
  let ?e = "exponentOf ?r"
  have nz: "?r \<noteq> 0" using False by simp
  have e: "?e \<le> 52" using exponentOf_le [of ?r 52] nz assms by (simp add: twoTo_def)
  define m where "m = (2::int) ^ nat (52 - ?e)"
  have m: "real_of_int m = 2 powr real_of_int (52 - ?e)"
    using e powr_int_nat [of "52 - ?e"] by (simp add: m_def)
  have "2 powr real_of_int (52 - ?e) * 2 powr real_of_int (?e - 52)
      = 2 powr (real_of_int (52 - ?e) + real_of_int (?e - 52))"
    by (simp only: powr_add)
  also have "real_of_int (52 - ?e) + real_of_int (?e - 52) = 0" by simp
  finally have one: "real_of_int m * ulp ?r = 1" by (simp add: m ulp_def)
  then have "?r / ulp ?r = ?r * real_of_int m"
    using ulp_pos [of ?r] by (simp add: field_simps)
  also have "\<dots> = real_of_int (n * m)" by simp
  finally have q: "roundHalfEven (?r / ulp ?r) = n * m" by (simp only: roundHalfEven_of_int)
  have v: "real_of_int (roundHalfEven (?r / ulp ?r)) * ulp ?r = ?r"
    unfolding q using one by (simp add: mult.assoc)
  have "\<bar>?r\<bar> < overflowThreshold"
    using assms threshold_above [of 52] by (simp add: twoTo_def)
  then have "\<not> ?r \<ge> overflowThreshold" "\<not> ?r \<le> - overflowThreshold" by linarith+
  then show ?thesis using nz by (simp add: roundDouble_def v)
qed

lemma twoTo_52: "twoTo 52 = 4503599627370496"
  using twoTo_nat [of 52] by simp


lemma roundDouble_zero: "roundDouble 0 = Fin 0"
  by (simp add: roundDouble_def)

lemma roundDouble_one: "roundDouble 1 = Fin 1"
  using roundDouble_int [of 1] by (simp add: twoTo_52)


lemma threshold_twoTo: "overflowThreshold = twoTo 1024 - twoTo 970"
proof -
  have "twoTo (int 1024) = 2 ^ 1024" "twoTo (int 970) = 2 ^ 970" by (rule twoTo_nat)+
  then show ?thesis by (simp add: overflowThreshold_def)
qed

lemma roundDouble_normal:
  assumes "twoTo e \<le> \<bar>r\<bar>" "\<bar>r\<bar> < twoTo (e + 1)" "- 1022 \<le> e" "\<bar>r\<bar> < overflowThreshold"
  shows "roundDouble r
    = Fin (real_of_int (roundHalfEven (r / twoTo (e - 52))) * twoTo (e - 52))"
proof -
  have e: "exponentOf r = e" using assms(1-3) unfolding twoTo_def by (rule exponentOf_eq)
  have nz: "r \<noteq> 0" using assms(1) twoTo_pos [of e] by auto
  have "\<not> r \<ge> overflowThreshold" "\<not> r \<le> - overflowThreshold" using assms(4) by linarith+
  then show ?thesis using nz by (simp add: roundDouble_def ulp_def e twoTo_def)
qed

lemma roundHalfEven_near:
  assumes "0 \<le> x" "x < 1 / 2"
  shows "roundHalfEven (real_of_int a + x) = a"
proof -
  have "\<lfloor>real_of_int a + x\<rfloor> = a" using assms by (intro floor_unique) simp_all
  then show ?thesis using assms by (simp add: roundHalfEven_def)
qed

lemma twoTo_53: "twoTo 53 = 9007199254740992"
  using twoTo_nat [of 53] by simp


lemma twoTo_minus53: "twoTo (- 53) = 1 / 9007199254740992"
proof -
  have "twoTo (- 53) * twoTo 53 = twoTo 0" by (simp only: twoTo_mult) simp
  then show ?thesis by (simp add: twoTo_53 twoTo_zero field_simps)
qed

text \<open>\<open>(2 ^ 53 - 1) * 2 ^ k\<close> is a double.\<close>

lemma roundDouble_largest_significand:
  assumes "- 1022 \<le> k + 52" "k + 53 \<le> 1023"
  shows "roundDouble (9007199254740991 * twoTo k) = Fin (9007199254740991 * twoTo k)"
proof -
  let ?r = "9007199254740991 * twoTo k"
  have pos: "0 < ?r" using twoTo_pos [of k] by simp
  have "twoTo (52 + k) = 4503599627370496 * twoTo k"
    by (simp only: twoTo_mult [symmetric] twoTo_52)
  then have lo: "twoTo (k + 52) \<le> \<bar>?r\<bar>" using twoTo_pos [of k] by (simp add: add.commute)
  have "twoTo (53 + k) = 9007199254740992 * twoTo k"
    by (simp only: twoTo_mult [symmetric] twoTo_53)
  then have up: "\<bar>?r\<bar> < twoTo (k + 52 + 1)" using twoTo_pos [of k] by (simp add: add.commute)
  have "twoTo (k + 52 + 1) \<le> twoTo 1023" using assms(2) by (intro twoTo_mono) simp
  also have "\<dots> < overflowThreshold" using threshold_above [of 1023] by (simp add: twoTo_def)
  finally have thr: "\<bar>?r\<bar> < overflowThreshold" using up by linarith
  have q: "?r / twoTo (k + 52 - 52) = real_of_int 9007199254740991"
    using twoTo_pos [of k] by simp
  have "roundDouble ?r
      = Fin (real_of_int (roundHalfEven (?r / twoTo (k + 52 - 52))) * twoTo (k + 52 - 52))"
    by (rule roundDouble_normal [OF lo up assms(1) thr])
  also have "\<dots> = Fin (real_of_int 9007199254740991 * twoTo (k + 52 - 52))"
    by (simp only: q roundHalfEven_of_int)
  also have "\<dots> = Fin ?r" by simp
  finally show ?thesis .
qed

text \<open>The square of such a double rounds down to \<open>(2 ^ 53 - 2) * 2 ^ (2 k + 53)\<close>.\<close>

lemma roundDouble_largest_square:
  assumes "j = k + k" "- 1022 \<le> j + 105" "j \<le> 918"
  shows "roundDouble ((9007199254740991 * twoTo k) * (9007199254740991 * twoTo k))
    = Fin (9007199254740990 * twoTo (j + 53))"
proof -
  let ?r = "(9007199254740991 * twoTo k) * (9007199254740991 * twoTo k)"
  have kk: "twoTo k * twoTo k = twoTo j" unfolding assms(1) by (rule twoTo_mult)
  have "?r = (9007199254740991 * 9007199254740991) * (twoTo k * twoTo k)" by simp
  then have r: "?r = 81129638414606663681390495662081 * twoTo j" unfolding kk by simp
  have p105: "twoTo 105 = 40564819207303340847894502572032" using twoTo_nat [of 105] by simp
  have p106: "twoTo 106 = 81129638414606681695789005144064" using twoTo_nat [of 106] by simp
  have "twoTo (105 + j) = 40564819207303340847894502572032 * twoTo j"
    by (simp only: twoTo_mult [symmetric] p105)
  then have lo: "twoTo (j + 105) \<le> \<bar>?r\<bar>"
    unfolding r using twoTo_pos [of j] by (simp add: add.commute)
  have "twoTo (106 + j) = 81129638414606681695789005144064 * twoTo j"
    by (simp only: twoTo_mult [symmetric] p106)
  then have up: "\<bar>?r\<bar> < twoTo (j + 105 + 1)"
    unfolding r using twoTo_pos [of j] by (simp add: add.commute)
  have "twoTo 1024 = twoTo 106 * twoTo 918" "twoTo 970 = twoTo 52 * twoTo 918"
    by (simp_all only: twoTo_mult) simp_all
  then have t: "overflowThreshold = 81129638414606677192189377773568 * twoTo 918"
    by (simp add: threshold_twoTo p106 twoTo_52 algebra_simps)
  have "\<bar>?r\<bar> \<le> 81129638414606663681390495662081 * twoTo 918"
    unfolding r using twoTo_mono [OF assms(3)] twoTo_pos [of j] by simp
  also have "\<dots> < overflowThreshold" unfolding t using twoTo_pos [of 918] by simp
  finally have thr: "\<bar>?r\<bar> < overflowThreshold" .
  have "twoTo j * twoTo 53 = twoTo (j + 53)" by (rule twoTo_mult)
  then have e: "twoTo (j + 53) = twoTo j * 9007199254740992" by (simp only: twoTo_53)
  have "?r / twoTo (j + 53) = 81129638414606663681390495662081 / 9007199254740992"
    unfolding r e using twoTo_pos [of j] by simp
  also have "\<dots> = real_of_int 9007199254740990 + 1 / 9007199254740992" by simp
  finally have q0: "?r / twoTo (j + 53)
      = real_of_int 9007199254740990 + 1 / 9007199254740992" .
  have ex: "j + 105 - 52 = j + 53" by simp
  have q: "?r / twoTo (j + 105 - 52)
      = real_of_int 9007199254740990 + 1 / 9007199254740992"
    unfolding ex by (rule q0)
  have n: "roundHalfEven (real_of_int 9007199254740990 + 1 / 9007199254740992)
      = 9007199254740990"
    by (rule roundHalfEven_near) simp_all
  have "roundDouble ?r
      = Fin (real_of_int (roundHalfEven (?r / twoTo (j + 105 - 52))) * twoTo (j + 105 - 52))"
    by (rule roundDouble_normal [OF lo up assms(2) thr])
  also have "\<dots> = Fin (real_of_int 9007199254740990 * twoTo (j + 105 - 52))"
    by (simp only: q n)
  also have "\<dots> = Fin (9007199254740990 * twoTo (j + 53))" by (simp only: ex) simp
  finally show ?thesis .
qed


lemma roundDouble_tiny:
  assumes "0 \<le> r" "r < twoTo (- 1075)"
  shows "roundDouble r = Fin 0"
proof (cases "r = 0")
  case True
  then show ?thesis by (simp add: roundDouble_def)
next
  case False
  have "twoTo (- 1075) \<le> twoTo (- 1022)" by (rule twoTo_mono) simp
  then have "\<bar>r\<bar> \<le> twoTo (- 1022)" using assms by linarith
  then have "\<bar>r\<bar> \<le> 2 powr real_of_int (- 1022)" by (simp only: twoTo_def)
  from exponentOf_le [OF False this] exponentOf_ge [of r]
  have e: "exponentOf r = - 1022" by simp
  have u: "ulp r = twoTo (- 1074)" by (simp add: ulp_def e twoTo_def)
  have h: "twoTo (- 1075) = twoTo (- 1074) / 2" using twoTo_double [of "- 1075"] by simp
  have "r / ulp r < 1 / 2"
    using assms(2) twoTo_pos [of "- 1074"] unfolding u h by (simp add: field_simps)
  moreover have "0 \<le> r / ulp r" using assms(1) ulp_pos [of r] by simp
  ultimately have "roundHalfEven (real_of_int 0 + r / ulp r) = 0"
    by (intro roundHalfEven_near)
  then have q: "roundHalfEven (r / ulp r) = 0" by simp
  have "r < overflowThreshold"
    using assms(2) twoTo_mono [of "- 1075" 0] threshold_above [of 0] by (simp add: twoTo_def)
  then show ?thesis using False assms(1) by (simp add: roundDouble_def q)
qed

text \<open>
  The model at the edge of the double range.  From the origin to
  \<open>(2 ^ 512 - 2 ^ 459, 2 ^ 486 - 2 ^ 433)\<close> the exact sum of the squares is below \<open>2 ^ 1024\<close>,
  but the rounded squares add up to \<open>2 ^ 1024 - 2 ^ 920\<close>, which rounds to \<open>Infinity\<close>.
\<close>

lemma velocity_at_overflow_boundary:
  "velocityJS (sample 0 0 0.5 0) (sample (2 ^ 512 - 2 ^ 459) (2 ^ 486 - 2 ^ 433) 0.5 1) = PosInf"
proof -
  have p: "twoTo (int 512) = 2 ^ 512" "twoTo (int 459) = 2 ^ 459"
    "twoTo (int 486) = 2 ^ 486" "twoTo (int 433) = 2 ^ 433"
    by (rule twoTo_nat)+
  have "twoTo 53 * twoTo 459 = twoTo (53 + 459)" by (rule twoTo_mult)
  then have "twoTo 512 = 9007199254740992 * twoTo 459" by (simp add: twoTo_53)
  then have x: "(2::real) ^ 512 - 2 ^ 459 = 9007199254740991 * twoTo 459"
    using p(1,2) by simp
  have "twoTo 53 * twoTo 433 = twoTo (53 + 433)" by (rule twoTo_mult)
  then have "twoTo 486 = 9007199254740992 * twoTo 433" by (simp add: twoTo_53)
  then have y: "(2::real) ^ 486 - 2 ^ 433 = 9007199254740991 * twoTo 433"
    using p(3,4) by simp
  have dx: "subJS (Fin (2 ^ 512 - 2 ^ 459)) (Fin 0) = Fin (9007199254740991 * twoTo 459)"
    unfolding x using roundDouble_largest_significand [of 459] by simp
  have dy: "subJS (Fin (2 ^ 486 - 2 ^ 433)) (Fin 0) = Fin (9007199254740991 * twoTo 433)"
    unfolding y using roundDouble_largest_significand [of 433] by simp
  have sx: "pow2JS (Fin (9007199254740991 * twoTo 459)) = Fin (9007199254740990 * twoTo 971)"
    using roundDouble_largest_square [of 918 459] by simp
  have sy: "pow2JS (Fin (9007199254740991 * twoTo 433)) = Fin (9007199254740990 * twoTo 919)"
    using roundDouble_largest_square [of 866 433] by simp
  have "twoTo 52 * twoTo 919 = twoTo (52 + 919)" "twoTo 105 * twoTo 919 = twoTo (105 + 919)"
    "twoTo 51 * twoTo 919 = twoTo (51 + 919)"
    by (rule twoTo_mult)+
  moreover have "twoTo 105 = 40564819207303340847894502572032" using twoTo_nat [of 105] by simp
  moreover have "twoTo 51 = 2251799813685248" using twoTo_nat [of 51] by simp
  ultimately have e: "twoTo 971 = 4503599627370496 * twoTo 919"
    and t: "overflowThreshold = 40564819207303338596094688886784 * twoTo 919"
    by (simp_all add: twoTo_52 threshold_twoTo algebra_simps)
  have "overflowThreshold \<le> 9007199254740990 * twoTo 971 + 9007199254740990 * twoTo 919"
    unfolding e t using twoTo_pos [of 919] by simp
  then have s: "addJS (Fin (9007199254740990 * twoTo 971)) (Fin (9007199254740990 * twoTo 919))
      = PosInf"
    using threshold_pos by (simp add: roundDouble_def)
  have d: "getDistanceJS (sample 0 0 0.5 0) (sample (2 ^ 512 - 2 ^ 459) (2 ^ 486 - 2 ^ 433) 0.5 1)
      = PosInf"
    unfolding getDistanceJS_def sample_sel dx dy sx sy s by simp
  show ?thesis
    unfolding velocityJS_def Let_def d sample_sel by (simp add: roundDouble_one)
qed

text \<open>
  From the origin to \<open>(2 ^ -600, 0)\<close> the square of the difference underflows to \<open>0\<close>: the
  velocity is \<open>0\<close>, where the exact one is \<open>2 ^ -600\<close> per millisecond.
\<close>

lemma velocity_at_underflow:
  "velocityJS (sample 0 0 0.5 0) (sample (1 / 2 ^ 600) 0 0.5 1) = Fin 0"
proof -
  have "twoTo (- 600) * twoTo (int 600) = twoTo (- 600 + int 600)" by (rule twoTo_mult)
  moreover have "twoTo (int 600) = 2 ^ 600" by (rule twoTo_nat)
  ultimately have x: "1 / 2 ^ 600 = twoTo (- 600)" by (simp add: twoTo_zero field_simps)
  have dx: "subJS (Fin (1 / 2 ^ 600)) (Fin 0) = Fin (twoTo (- 600))"
    unfolding x using roundDouble_twoTo [of "- 600"] by simp
  have "twoTo (- 600) * twoTo (- 600) = twoTo (- 600 + - 600)" by (rule twoTo_mult)
  moreover have "twoTo (- 600 + - 600) < twoTo (- 1075)"
    using twoTo_mono [of "- 1200" "- 1076"] twoTo_double [of "- 1076"] twoTo_pos [of "- 1076"]
    by simp
  ultimately have sx: "pow2JS (Fin (twoTo (- 600))) = Fin 0"
    using roundDouble_tiny [of "twoTo (- 600) * twoTo (- 600)"] twoTo_pos [of "- 1200"] by simp
  have d: "getDistanceJS (sample 0 0 0.5 0) (sample (1 / 2 ^ 600) 0 0.5 1) = Fin 0"
    unfolding getDistanceJS_def sample_sel dx sx by (simp add: roundDouble_zero)
  show ?thesis
    unfolding velocityJS_def Let_def d sample_sel by (simp add: roundDouble_one roundDouble_zero)
qed



section \<open>Properties of the shuffle\<close>



































end
